theory Spec2Isabelle
  imports Main
begin

section \<open>Strings of the host language\<close>

text \<open>
  A source string is a sequence of code units, modelled as \<^typ>\<open>string\<close>. The
  white space that \<^verbatim>\<open>String.prototype.trim\<close> removes and that the regular
  expression class \<^verbatim>\<open>\s\<close> accepts is the same set; within the 8-bit code units
  of \<^typ>\<open>char\<close> it is TAB, LF, VT, FF, CR, SPACE and NBSP.
\<close>

definition isWhiteSpace :: "char \<Rightarrow> bool" where
  "isWhiteSpace c =
     (c = CHR 0x09 \<or> c = CHR 0x0A \<or> c = CHR 0x0B \<or> c = CHR 0x0C \<or> c = CHR 0x0D
      \<or> c = CHR 0x20 \<or> c = CHR 0xA0)"

definition trim :: "string \<Rightarrow> string" where
  "trim s = rev (dropWhile isWhiteSpace (rev (dropWhile isWhiteSpace s)))"

text \<open>\<^verbatim>\<open>s.split(d)\<close> for a one-character separator: always at least one field.\<close>

fun split :: "char \<Rightarrow> string \<Rightarrow> string list" where
  "split d [] = [[]]"
| "split d (c # cs) =
     (if c = d then [] # split d cs
      else (case split d cs of [] \<Rightarrow> [[c]] | f # fs \<Rightarrow> (c # f) # fs))"

text \<open>\<^verbatim>\<open>xs.join(sep)\<close>.\<close>

fun join :: "string \<Rightarrow> string list \<Rightarrow> string" where
  "join sep [] = []"
| "join sep [x] = x"
| "join sep (x # y # ys) = x @ sep @ join sep (y # ys)"

text \<open>\<^verbatim>\<open>s.slice(1, -1)\<close>: drop the first and the last code unit (empty when
  the string has fewer than three).\<close>

definition slice_1_m1 :: "string \<Rightarrow> string" where
  "slice_1_m1 s = butlast (tl s)"

definition startsWith :: "string \<Rightarrow> char \<Rightarrow> bool" where
  "startsWith s c = (case s of [] \<Rightarrow> False | x # _ \<Rightarrow> x = c)"

definition endsWith :: "string \<Rightarrow> char \<Rightarrow> bool" where
  "endsWith s c = (s \<noteq> [] \<and> last s = c)"

definition newline :: char where
  "newline = CHR 0x0A"

section \<open>Table model (MarkdownParser.ts)\<close>

record TableCell =
  content :: string

record TableRow =
  cells :: "TableCell list"

record ParsedTable =
  headers :: TableRow
  separator :: "string list"
  rows :: "TableRow list"
  startLine :: int
  endLine :: int

text \<open>An exception of the host language, as a value.\<close>

datatype error = TypeError

section \<open>MarkdownParser\<close>

definition isTableLine :: "string \<Rightarrow> bool" where
  "isTableLine line = (startsWith (trim line) CHR ''|'' \<and> endsWith (trim line) CHR ''|'')"

text \<open>The class \<^verbatim>\<open>[\|\s\-:]\<close> of \<^verbatim>\<open>isSeparatorLine\<close>.\<close>

definition isSeparatorChar :: "char \<Rightarrow> bool" where
  "isSeparatorChar c = (c = CHR ''|'' \<or> isWhiteSpace c \<or> c = CHR ''-'' \<or> c = CHR '':'')"

definition isSeparatorLine :: "string \<Rightarrow> bool" where
  "isSeparatorLine line =
     (let trimmed = trim line in
      startsWith trimmed CHR ''|'' \<and> endsWith trimmed CHR ''|'' \<and>
      trimmed \<noteq> [] \<and> list_all isSeparatorChar trimmed)"

definition parseTableRow :: "string \<Rightarrow> TableRow" where
  "parseTableRow line =
     (let trimmed = trim line;
          content = slice_1_m1 trimmed
      in \<lparr>cells = map (\<lambda>cell. \<lparr>content = trim cell\<rparr>) (split CHR ''|'' content)\<rparr>)"

definition parseSeparator :: "string \<Rightarrow> string list" where
  "parseSeparator line =
     (let trimmed = trim line;
          content = slice_1_m1 trimmed
      in map trim (split CHR ''|'' content))"

text \<open>The first loop of \<^verbatim>\<open>parseTable\<close>: advance to the first table line.\<close>

function findTableStart :: "string list \<Rightarrow> nat \<Rightarrow> nat" where
  "findTableStart lines currentLine =
     (if currentLine < length lines \<and> \<not> isTableLine (lines ! currentLine)
      then findTableStart lines (Suc currentLine) else currentLine)"
  by pat_completeness auto
termination
  by (relation "measure (\<lambda>(lines, currentLine). length lines - currentLine)") auto

declare findTableStart.simps [simp del]

text \<open>The last loop of \<^verbatim>\<open>parseTable\<close>: collect rows while lines are table lines.
  Returns the rows and the line reached.\<close>

function parseRows :: "string list \<Rightarrow> nat \<Rightarrow> TableRow list \<Rightarrow> TableRow list \<times> nat" where
  "parseRows lines currentLine acc =
     (if currentLine < length lines \<and> isTableLine (lines ! currentLine)
      then parseRows lines (Suc currentLine) (acc @ [parseTableRow (lines ! currentLine)])
      else (acc, currentLine))"
  by pat_completeness auto
termination
  by (relation "measure (\<lambda>(lines, currentLine, acc). length lines - currentLine)") auto

declare parseRows.simps [simp del]

text \<open>\<^verbatim>\<open>parseTable(content, startLine)\<close>. A negative \<^verbatim>\<open>startLine\<close> reads
  \<^verbatim>\<open>lines[startLine]\<close>, which is undefined, and \<^verbatim>\<open>isTableLine\<close> throws on it;
  \<^verbatim>\<open>null\<close> is \<open>Inr None\<close>.\<close>

definition parseTable :: "string \<Rightarrow> int \<Rightarrow> error + ParsedTable option" where
  "parseTable text start =
     (let lines = split newline text in
      if start < 0 then Inl TypeError
      else
        let tableStartLine = findTableStart lines (nat start) in
        if tableStartLine \<ge> length lines then Inr None
        else
          let hdrs = parseTableRow (lines ! tableStartLine);
              currentLine = Suc tableStartLine
          in if currentLine \<ge> length lines \<or> \<not> isSeparatorLine (lines ! currentLine)
             then Inr None
             else
               let sep = parseSeparator (lines ! currentLine);
                   (rs, lastLine) = parseRows lines (Suc currentLine) []
               in Inr (Some \<lparr>headers = hdrs, separator = sep, rows = rs,
                              startLine = int tableStartLine, endLine = int lastLine - 1\<rparr>))"

text \<open>\<^verbatim>\<open>generateTable(table)\<close>: the signature that takes a parsed table.\<close>

definition rowLine :: "string list \<Rightarrow> string" where
  "rowLine xs = ''| '' @ join '' | '' xs @ '' |''"

definition generateTable :: "ParsedTable \<Rightarrow> string" where
  "generateTable table =
     join [newline]
       ([rowLine (map content (cells (headers table))),
         rowLine (separator table)]
        @ map (\<lambda>row. rowLine (map content (cells row))) (rows table))"

text \<open>\<^verbatim>\<open>generateTable(headers, rows, alignments)\<close>: the legacy signature, which
  writes a fresh separator and pads or cuts every row to the header count. A missing
  \<^verbatim>\<open>alignments\<close> argument is \<open>None\<close>; a missing entry counts as left.\<close>

datatype alignment = AlignLeft | AlignCenter | AlignRight

definition alignmentToken :: "alignment list option \<Rightarrow> nat \<Rightarrow> string" where
  "alignmentToken alignments index =
     (case alignments of
        None \<Rightarrow> ''---''
      | Some as \<Rightarrow>
          (if index < length as then
             (case as ! index of
                AlignCenter \<Rightarrow> '':---:''
              | AlignRight \<Rightarrow> ''---:''
              | AlignLeft \<Rightarrow> ''---'')
           else ''---''))"

definition padRow :: "nat \<Rightarrow> string list \<Rightarrow> string list" where
  "padRow n row = take n (row @ replicate (n - length row) [])"

definition generateTableLegacy ::
  "string list \<Rightarrow> string list list \<Rightarrow> alignment list option \<Rightarrow> string" where
  "generateTableLegacy hdrs tableRows alignments =
     join [newline]
       ([rowLine hdrs,
         rowLine (map (alignmentToken alignments) [0..<length hdrs])]
        @ map (\<lambda>row. rowLine (padRow (length hdrs) row)) tableRows)"

text \<open>Decimal rendering of a number inside a template string.\<close>

function showNat :: "nat \<Rightarrow> string" where
  "showNat n = (if n < 10 then [char_of (48 + n)] else showNat (n div 10) @ [char_of (48 + n mod 10)])"
  by pat_completeness auto
termination
  by (relation "measure id") auto

declare showNat.simps [simp del]

text \<open>\<^verbatim>\<open>getTableAtCursor(content, cursorLine)\<close>. Reading \<^verbatim>\<open>lines[startLine]\<close>
  outside the array gives undefined, on which \<^verbatim>\<open>isTableLine\<close> throws.\<close>

fun lookBackwards :: "string list \<Rightarrow> nat \<Rightarrow> nat" where
  "lookBackwards lines 0 = 0"
| "lookBackwards lines (Suc n) =
     (if isTableLine (lines ! Suc n) then lookBackwards lines n else Suc n)"

definition getTableAtCursor :: "string \<Rightarrow> int \<Rightarrow> error + ParsedTable option" where
  "getTableAtCursor text cursorLine =
     (let lines = split newline text in
      if cursorLine < 0 \<or> cursorLine \<ge> int (length lines) then Inl TypeError
      else
        let back = lookBackwards lines (nat cursorLine);
            start = (if \<not> isTableLine (lines ! back) then Suc back else back)
        in if start \<ge> length lines \<or> \<not> isTableLine (lines ! start) then Inr None
           else parseTable text (int start))"

section \<open>TableValidator\<close>

record ValidationResult =
  isValid :: bool
  errors :: "string list"
  warnings :: "string list"

definition pushError :: "string \<Rightarrow> ValidationResult \<Rightarrow> ValidationResult" where
  "pushError msg r = r\<lparr>errors := errors r @ [msg], isValid := False\<rparr>"

definition pushWarning :: "string \<Rightarrow> ValidationResult \<Rightarrow> ValidationResult" where
  "pushWarning msg r = r\<lparr>warnings := warnings r @ [msg]\<rparr>"

text \<open>\<^verbatim>\<open>xs.forEach((x, index) => ...)\<close> over a result that the body updates.\<close>

fun forEachIndexed :: "(nat \<Rightarrow> 'a \<Rightarrow> 's \<Rightarrow> 's) \<Rightarrow> nat \<Rightarrow> 'a list \<Rightarrow> 's \<Rightarrow> 's" where
  "forEachIndexed body index [] r = r"
| "forEachIndexed body index (x # xs) r = forEachIndexed body (Suc index) xs (body index x r)"

text \<open>The separator token test \<^verbatim>\<open>/^:?-+:?$/\<close>.\<close>

definition matchesSeparatorToken :: "string \<Rightarrow> bool" where
  "matchesSeparatorToken sep =
     (let afterColon = (if startsWith sep CHR '':'' then tl sep else sep);
          afterDashes = dropWhile (\<lambda>c. c = CHR ''-'') afterColon
      in startsWith afterColon CHR ''-'' \<and> (afterDashes = [] \<or> afterDashes = '':''))"

definition validateTable :: "ParsedTable \<Rightarrow> ValidationResult" where
  "validateTable table =
     (let result = \<lparr>isValid = True, errors = [], warnings = []\<rparr>;
          result = (if length (cells (headers table)) = 0
                    then pushError ''Table must have headers'' result else result);
          result = (if length (separator table) \<noteq> length (cells (headers table))
                    then pushError ''Separator row must match number of headers'' result
                    else result);
          expectedColumns = length (cells (headers table));
          result = forEachIndexed (\<lambda>index row r.
                     if length (cells row) \<noteq> expectedColumns
                     then pushWarning (''Row '' @ showNat (index + 1) @ '' has '' @
                            showNat (length (cells row)) @ '' columns, expected '' @
                            showNat expectedColumns) r
                     else r) 0 (rows table) result;
          result = forEachIndexed (\<lambda>index cell r.
                     if trim (content cell) = []
                     then pushWarning (''Header '' @ showNat (index + 1) @ '' is empty'') r
                     else r) 0 (cells (headers table)) result;
          result = forEachIndexed (\<lambda>index sep r.
                     if \<not> matchesSeparatorToken sep
                     then pushError (''Invalid separator format in column '' @
                            showNat (index + 1) @ '': '' @ sep) r
                     else r) 0 (separator table) result
      in result)"

text \<open>\<^verbatim>\<open>toLowerCase\<close> on 8-bit code units: A to Z, and the Latin-1 capitals
  0xC0 to 0xDE other than the multiplication sign 0xD7.\<close>

definition toLowerChar :: "char \<Rightarrow> char" where
  "toLowerChar c =
     (let n = (of_char c :: nat) in
      if (65 \<le> n \<and> n \<le> 90) \<or> (192 \<le> n \<and> n \<le> 222 \<and> n \<noteq> 215)
      then char_of (n + 32) else c)"

definition toLowerCase :: "string \<Rightarrow> string" where
  "toLowerCase s = map toLowerChar s"

text \<open>\<^verbatim>\<open>validateTableData(headers, rows)\<close>. The set of headers seen so far is
  threaded through the first loop together with the result; \<^verbatim>\<open>rows\<close> may be
  missing (\<open>None\<close>). Every row of the typed input is an array, so the branch for a row
  that is not one cannot be taken.\<close>

definition checkHeader ::
  "nat \<Rightarrow> string \<Rightarrow> string list \<times> ValidationResult \<Rightarrow> string list \<times> ValidationResult" where
  "checkHeader index header st =
     (let (headerSet, r) = st;
          r = (if toLowerCase (trim header) \<in> set headerSet
               then pushWarning (''Duplicate header found: '' @ [CHR 0x22] @ header @ [CHR 0x22]) r
               else r);
          headerSet = headerSet @ [toLowerCase (trim header)];
          r = (if trim header = []
               then pushWarning (''Header '' @ showNat (index + 1) @ '' is empty'') r
               else r)
      in (headerSet, r))"

definition validateTableData :: "string list \<Rightarrow> string list list option \<Rightarrow> ValidationResult" where
  "validateTableData hdrs tableRows =
     (let result = \<lparr>isValid = True, errors = [], warnings = []\<rparr>;
          result = (if length hdrs = 0
                    then pushError ''Table must have at least one header'' result else result);
          result = snd (forEachIndexed checkHeader 0 hdrs ([], result))
      in case tableRows of
           None \<Rightarrow> pushWarning ''Table has no data rows'' result
         | Some rs \<Rightarrow>
             (let expectedColumns = length hdrs in
              forEachIndexed (\<lambda>rowIndex row r.
                if length row > expectedColumns
                then pushWarning (''Row '' @ showNat (rowIndex + 1) @ '' has '' @
                       showNat (length row) @ '' columns, expected '' @ showNat expectedColumns @
                       ''. Extra columns will be ignored.'') r
                else if length row < expectedColumns
                then pushWarning (''Row '' @ showNat (rowIndex + 1) @ '' has '' @
                       showNat (length row) @ '' columns, expected '' @ showNat expectedColumns @
                       ''. Missing columns will be filled with empty cells.'') r
                else r) 0 rs result))"

section \<open>TableManager (TableToolbar.ts)\<close>

text \<open>The host editor as a command sees it: the buffer text and the cursor. A command
  without an active editor gets \<open>None\<close>.\<close>

record Editor =
  getValue :: string
  cursorLine :: int
  cursorCh :: int

text \<open>The fields of the manager that commands read and write, with
  \<^verbatim>\<open>settings.enableSorting\<close>.\<close>

record TableManager =
  enableSorting :: bool
  sortAscending :: bool
  lastSortedColumn :: int
  lastModifiedRow :: int
  lastModifiedColumn :: int

definition newTableManager :: "bool \<Rightarrow> TableManager" where
  "newTableManager sorting =
     \<lparr>enableSorting = sorting, sortAscending = True, lastSortedColumn = - 1,
      lastModifiedRow = - 1, lastModifiedColumn = - 1\<rparr>"

text \<open>What a command does to the host. \<open>Reported\<close>: only a notice is shown and nothing
  is written. \<open>Replaced text from to notice\<close>: \<^verbatim>\<open>replaceRange(text, {line: from, ch: 0},
  {line: to, ch: 0})\<close>, then the notice. \<open>Inserted text line ch notice\<close>:
  \<^verbatim>\<open>replaceRange(text, cursor)\<close>, then the notice. \<open>Sorted column ascending\<close>: the rows
  are sorted on that column in that direction and written back; the comparator rests on
  the host's \<^verbatim>\<open>parseFloat\<close> and \<^verbatim>\<open>localeCompare\<close>, so the order itself is
  not part of this model.\<close>

datatype outcome =
    Reported string
  | Replaced string int int string
  | Inserted string int int string
  | Sorted int bool

subsection \<open>Deleting the last row or column\<close>

text \<open>The in-memory step of \<^verbatim>\<open>deleteRow\<close>: the guard, then \<^verbatim>\<open>table.rows.pop()\<close>.
  \<open>Inl\<close> is the notice of a refusal, with the table untouched.\<close>

definition deleteRowTable :: "ParsedTable \<Rightarrow> string + ParsedTable" where
  "deleteRowTable table =
     (if length (rows table) = 0 then Inl ''Cannot delete row: table has no data rows''
      else Inr (table\<lparr>rows := butlast (rows table)\<rparr>))"

text \<open>The rewrite that follows the insert and delete commands: through the legacy
  generator, over the line range of the parsed table.\<close>

definition regenerate :: "ParsedTable \<Rightarrow> string \<Rightarrow> outcome" where
  "regenerate table notice =
     Replaced
       (generateTableLegacy (map content (cells (headers table)))
          (map (\<lambda>row. map content (cells row)) (rows table)) None @ [newline])
       (startLine table) (endLine table + 1) notice"

definition deleteRow :: "Editor option \<Rightarrow> error + outcome" where
  "deleteRow activeEditor =
     (case activeEditor of
        None \<Rightarrow> Inr (Reported ''No active editor found'')
      | Some editor \<Rightarrow>
          (case getTableAtCursor (getValue editor) (cursorLine editor) of
             Inl e \<Rightarrow> Inl e
           | Inr None \<Rightarrow> Inr (Reported ''No table found at cursor position'')
           | Inr (Some table) \<Rightarrow>
               (case deleteRowTable table of
                  Inl notice \<Rightarrow> Inr (Reported notice)
                | Inr table' \<Rightarrow> Inr (regenerate table' ''Row deleted''))))"

text \<open>The in-memory step of \<^verbatim>\<open>deleteColumn\<close>: the guard, then \<^verbatim>\<open>pop()\<close> on the
  header cells and on every row that has a cell.\<close>

definition deleteColumnTable :: "ParsedTable \<Rightarrow> string + ParsedTable" where
  "deleteColumnTable table =
     (if length (cells (headers table)) \<le> 1
      then Inl ''Cannot delete column: table must have at least one column''
      else Inr (table\<lparr>headers := \<lparr>cells = butlast (cells (headers table))\<rparr>,
                      rows := map (\<lambda>row. if length (cells row) > 0
                                          then \<lparr>cells = butlast (cells row)\<rparr> else row)
                                (rows table)\<rparr>))"

definition deleteColumn :: "Editor option \<Rightarrow> error + outcome" where
  "deleteColumn activeEditor =
     (case activeEditor of
        None \<Rightarrow> Inr (Reported ''No active editor found'')
      | Some editor \<Rightarrow>
          (case getTableAtCursor (getValue editor) (cursorLine editor) of
             Inl e \<Rightarrow> Inl e
           | Inr None \<Rightarrow> Inr (Reported ''No table found at cursor position'')
           | Inr (Some table) \<Rightarrow>
               (case deleteColumnTable table of
                  Inl notice \<Rightarrow> Inr (Reported notice)
                | Inr table' \<Rightarrow> Inr (regenerate table' ''Column deleted''))))"

subsection \<open>Moving a column\<close>

text \<open>\<^verbatim>\<open>const x = xs.splice(fromIndex, 1)[0]; xs.splice(toIndex, 0, x)\<close> on an array
  of any length. When \<^verbatim>\<open>fromIndex\<close> is past the end nothing is removed and \<^verbatim>\<open>x\<close>
  is undefined; an insertion index past the end appends. The result may therefore hold
  undefined, written \<open>None\<close>.\<close>

definition spliceMove :: "nat \<Rightarrow> nat \<Rightarrow> 'a list \<Rightarrow> 'a option list" where
  "spliceMove fromIndex toIndex xs =
     (let removed = (if fromIndex < length xs then Some (xs ! fromIndex) else None);
          rest = map Some (take fromIndex xs @ drop (Suc fromIndex) xs)
      in take toIndex rest @ [removed] @ drop toIndex rest)"

text \<open>The table after the three splices of \<^verbatim>\<open>moveColumn\<close>.\<close>

record SplicedTable =
  splicedHeaders :: "TableCell option list"
  splicedSeparator :: "string option list"
  splicedRows :: "TableCell option list list"

text \<open>The in-memory step of \<^verbatim>\<open>moveColumn\<close>: the index check against the header
  count, then the header, the separator and every row are spliced. \<open>Inl\<close> is the notice of
  a refusal, with the table untouched.\<close>

definition moveColumnTable :: "ParsedTable \<Rightarrow> int \<Rightarrow> int \<Rightarrow> string + SplicedTable" where
  "moveColumnTable table fromIndex toIndex =
     (if fromIndex < 0 \<or> fromIndex \<ge> int (length (cells (headers table))) \<or>
         toIndex < 0 \<or> toIndex \<ge> int (length (cells (headers table)))
      then Inl ''Invalid column indices''
      else Inr \<lparr>splicedHeaders = spliceMove (nat fromIndex) (nat toIndex) (cells (headers table)),
                splicedSeparator = spliceMove (nat fromIndex) (nat toIndex) (separator table),
                splicedRows = map (\<lambda>row. spliceMove (nat fromIndex) (nat toIndex) (cells row))
                                  (rows table)\<rparr>)"

text \<open>\<^verbatim>\<open>generateTable(table)\<close> on the spliced arrays: \<^verbatim>\<open>cell.content\<close> throws on an
  undefined cell, while \<^verbatim>\<open>join\<close> prints an undefined separator token as the empty
  string.\<close>

fun contents :: "TableCell option list \<Rightarrow> error + string list" where
  "contents [] = Inr []"
| "contents (None # cs) = Inl TypeError"
| "contents (Some c # cs) = (case contents cs of Inl e \<Rightarrow> Inl e | Inr xs \<Rightarrow> Inr (content c # xs))"

fun rowLines :: "TableCell option list list \<Rightarrow> error + string list" where
  "rowLines [] = Inr []"
| "rowLines (r # rs) =
     (case contents r of
        Inl e \<Rightarrow> Inl e
      | Inr xs \<Rightarrow> (case rowLines rs of Inl e \<Rightarrow> Inl e | Inr ls \<Rightarrow> Inr (rowLine xs # ls)))"

definition generateSpliced :: "SplicedTable \<Rightarrow> error + string" where
  "generateSpliced table =
     (case contents (splicedHeaders table) of
        Inl e \<Rightarrow> Inl e
      | Inr hs \<Rightarrow>
          (case rowLines (splicedRows table) of
             Inl e \<Rightarrow> Inl e
           | Inr ls \<Rightarrow>
               Inr (join [newline]
                      ([rowLine hs,
                        rowLine (map (\<lambda>tok. case tok of None \<Rightarrow> [] | Some t \<Rightarrow> t)
                                     (splicedSeparator table))] @ ls))))"

text \<open>\<^verbatim>\<open>moveColumn(fromIndex, toIndex)\<close>. The manager records \<^verbatim>\<open>toIndex\<close> before
  \<^verbatim>\<open>updateTable\<close> runs, so it is recorded also when the generator throws.\<close>

definition moveColumn ::
  "TableManager \<Rightarrow> Editor option \<Rightarrow> int \<Rightarrow> int \<Rightarrow> (error + outcome) \<times> TableManager" where
  "moveColumn this activeEditor fromIndex toIndex =
     (case activeEditor of
        None \<Rightarrow> (Inr (Reported ''No active editor found''), this)
      | Some editor \<Rightarrow>
          (case getTableAtCursor (getValue editor) (cursorLine editor) of
             Inl e \<Rightarrow> (Inl e, this)
           | Inr None \<Rightarrow> (Inr (Reported ''No table found at cursor position''), this)
           | Inr (Some table) \<Rightarrow>
               (case moveColumnTable table fromIndex toIndex of
                  Inl notice \<Rightarrow> (Inr (Reported notice), this)
                | Inr spliced \<Rightarrow>
                    (let this' = this\<lparr>lastModifiedColumn := toIndex\<rparr> in
                     case generateSpliced spliced of
                       Inl e \<Rightarrow> (Inl e, this')
                     | Inr newTable \<Rightarrow>
                         (Inr (Replaced (newTable @ [newline]) (startLine table)
                                 (endLine table + 1)
                                 (''Column moved from '' @ showNat (nat (fromIndex + 1)) @
                                  '' to '' @ showNat (nat (toIndex + 1)))),
                          this')))))"

subsection \<open>Cursor position to column\<close>

text \<open>\<^verbatim>\<open>lines[k] || ''\<close>: a missing line reads as the empty string.\<close>

definition lineOrEmpty :: "string list \<Rightarrow> int \<Rightarrow> string" where
  "lineOrEmpty lines k = (if 0 \<le> k \<and> k < int (length lines) then lines ! nat k else [])"

definition pipePositions :: "string \<Rightarrow> nat list" where
  "pipePositions targetLine = filter (\<lambda>i. targetLine ! i = CHR ''|'') [0..<length targetLine]"

text \<open>The loop over neighbouring pipes: the first \<open>i\<close> with
  \<^verbatim>\<open>ch > pipePositions[i] && ch <= pipePositions[i + 1]\<close>, or \<open>-1\<close>.\<close>

fun findBetweenPipes :: "nat list \<Rightarrow> int \<Rightarrow> nat \<Rightarrow> int" where
  "findBetweenPipes (startPipe # endPipe # ps) ch i =
     (if ch > int startPipe \<and> ch \<le> int endPipe then int i
      else findBetweenPipes (endPipe # ps) ch (Suc i))"
| "findBetweenPipes ps ch i = - 1"

text \<open>The column computed from the line under the cursor, before it is checked against
  the header count; \<open>-1\<close> where \<^verbatim>\<open>getCursorColumnIndex\<close> returns early for a line
  with fewer than two pipes.\<close>

definition columnIndexInLine :: "string \<Rightarrow> int \<Rightarrow> int" where
  "columnIndexInLine targetLine ch =
     (let pipes = pipePositions targetLine in
      if CHR ''|'' \<notin> set targetLine then - 1
      else if length pipes < 2 then - 1
      else
        let columnIndex = findBetweenPipes pipes ch 0;
            columnIndex = (if columnIndex = - 1 \<and> ch \<le> int (pipes ! 0) then 0 else columnIndex);
            columnIndex = (if columnIndex = - 1 \<and> ch > int (pipes ! (length pipes - 1))
                           then int (length pipes) - 2 else columnIndex)
        in columnIndex)"

definition targetLineOf :: "Editor \<Rightarrow> ParsedTable \<Rightarrow> int \<Rightarrow> string" where
  "targetLineOf editor table line =
     (let lines = split newline (getValue editor) in
      if line \<ge> startLine table \<and> line \<le> endLine table then lineOrEmpty lines line
      else lineOrEmpty lines (startLine table))"

text \<open>\<^verbatim>\<open>getCursorColumnIndex(table, cursor)\<close>; the cursor is passed as line and
  character offset.\<close>

definition getCursorColumnIndex :: "Editor option \<Rightarrow> ParsedTable \<Rightarrow> int \<Rightarrow> int \<Rightarrow> int" where
  "getCursorColumnIndex activeEditor table line ch =
     (case activeEditor of
        None \<Rightarrow> - 1
      | Some editor \<Rightarrow>
          (let targetLine = targetLineOf editor table line;
               columnIndex = columnIndexInLine targetLine ch
           in if columnIndex \<ge> 0 \<and> columnIndex < int (length (cells (headers table)))
              then columnIndex else - 1))"

subsection \<open>Sorting: the column and the direction\<close>

text \<open>The choice of the sort column in \<^verbatim>\<open>sortTable\<close>, up to and including the range
  check that falls back to column 0.\<close>

definition resolveSortColumn :: "TableManager \<Rightarrow> ParsedTable \<Rightarrow> int option \<Rightarrow> int \<Rightarrow> int" where
  "resolveSortColumn this table specifiedColumn originalCursorColumnIndex =
     (let sortColumnIndex =
            (case specifiedColumn of
               Some c \<Rightarrow> c
             | None \<Rightarrow>
                 if originalCursorColumnIndex \<ge> 0 \<and> lastSortedColumn this \<ge> 0 \<and>
                    originalCursorColumnIndex \<noteq> lastSortedColumn this
                 then originalCursorColumnIndex
                 else if lastSortedColumn this \<ge> 0 \<and>
                         lastSortedColumn this < int (length (cells (headers table)))
                 then lastSortedColumn this
                 else if originalCursorColumnIndex \<ge> 0 then originalCursorColumnIndex
                 else 0)
      in if sortColumnIndex < 0 \<or> sortColumnIndex \<ge> int (length (cells (headers table)))
         then 0 else sortColumnIndex)"

text \<open>\<^verbatim>\<open>sortTable(specifiedColumn)\<close>. The argument \<open>parsed\<close> is what
  \<^verbatim>\<open>optimizedTableParse\<close> returns for the buffer: the table of
  \<^verbatim>\<open>getTableAtCursor\<close>, or one cached for the same text less than five seconds ago.\<close>

definition sortTable ::
  "TableManager \<Rightarrow> Editor option \<Rightarrow> ParsedTable option \<Rightarrow> int option \<Rightarrow> outcome \<times> TableManager" where
  "sortTable this activeEditor parsed specifiedColumn =
     (case activeEditor of
        None \<Rightarrow> (Reported ''No active editor found'', this)
      | Some editor \<Rightarrow>
          if \<not> enableSorting this then (Reported ''Sorting is disabled in settings'', this)
          else
            (case parsed of
               None \<Rightarrow> (Reported ''No table found at cursor position'', this)
             | Some table \<Rightarrow>
                 if length (rows table) = 0
                 then (Reported ''Cannot sort: table has no data rows'', this)
                 else
                   (let originalCursorColumnIndex =
                          getCursorColumnIndex activeEditor table (cursorLine editor) (cursorCh editor);
                        sortColumnIndex =
                          resolveSortColumn this table specifiedColumn originalCursorColumnIndex;
                        this = (if lastSortedColumn this = sortColumnIndex
                                then this\<lparr>sortAscending := \<not> sortAscending this\<rparr>
                                else this\<lparr>sortAscending := True\<rparr>);
                        this = this\<lparr>lastSortedColumn := sortColumnIndex\<rparr>
                    in (Sorted sortColumnIndex (sortAscending this), this))))"

subsection \<open>Cell colour\<close>

text \<open>The four patterns of \<^verbatim>\<open>applyCellColor\<close> are sequences of literals and of greedy
  negated classes \<^verbatim>\<open>[^c]*\<close>, one of which is the capture group. \<open>matchAtoms\<close>
  matches such a sequence at the start of a string with the backtracking order of the
  host's regular expressions (the longest repetition first) and returns the captured
  text and what follows the match.\<close>

datatype atom = Lit string | StarNot char | GroupStarNot char

fun matchAtoms :: "atom list \<Rightarrow> string \<Rightarrow> (string \<times> string) option" where
  "matchAtoms [] s = Some ([], s)"
| "matchAtoms (Lit l # as) s =
     (if take (length l) s = l then matchAtoms as (drop (length l) s) else None)"
| "matchAtoms (StarNot x # as) [] = matchAtoms as []"
| "matchAtoms (StarNot x # as) (c # cs) =
     (if c \<noteq> x then
        (case matchAtoms (StarNot x # as) cs of
           Some r \<Rightarrow> Some r
         | None \<Rightarrow> matchAtoms as (c # cs))
      else matchAtoms as (c # cs))"
| "matchAtoms (GroupStarNot x # as) [] = matchAtoms as []"
| "matchAtoms (GroupStarNot x # as) (c # cs) =
     (if c \<noteq> x then
        (case matchAtoms (GroupStarNot x # as) cs of
           Some (g, r) \<Rightarrow> Some (c # g, r)
         | None \<Rightarrow> matchAtoms as (c # cs))
      else matchAtoms as (c # cs))"

text \<open>\<^verbatim>\<open>s.replace(/pattern/g, '$1')\<close>: every match, found from left to right, is
  replaced by its group; after an empty match the scan moves on by one code unit.\<close>

function replaceByGroup :: "atom list \<Rightarrow> string \<Rightarrow> string" where
  "replaceByGroup as [] = (case matchAtoms as [] of Some (g, r) \<Rightarrow> g | None \<Rightarrow> [])"
| "replaceByGroup as (c # cs) =
     (case matchAtoms as (c # cs) of
        None \<Rightarrow> c # replaceByGroup as cs
      | Some (g, r) \<Rightarrow>
          if length r < length (c # cs) then g @ replaceByGroup as r
          else g @ c # replaceByGroup as cs)"
  by pat_completeness auto
termination
  by (relation "measure (\<lambda>(as, s). length s)") auto

definition tdPattern :: "atom list" where
  "tdPattern =
     [Lit ''<td'', StarNot CHR ''>'', Lit (''style='' @ [CHR 0x22]), StarNot (CHR 0x22),
      Lit ''background-color:'', StarNot (CHR 0x22), Lit [CHR 0x22], StarNot CHR ''>'',
      Lit ''>'', GroupStarNot CHR ''<'', Lit ''</td>'']"

definition spanPattern :: "atom list" where
  "spanPattern =
     [Lit ''<span'', StarNot CHR ''>'', Lit (''style='' @ [CHR 0x22]), StarNot (CHR 0x22),
      Lit ''background-color:'', StarNot (CHR 0x22), Lit [CHR 0x22], StarNot CHR ''>'',
      Lit ''>'', GroupStarNot CHR ''<'', Lit ''</span>'']"

definition markPattern :: "atom list" where
  "markPattern =
     [Lit ''<mark'', StarNot CHR ''>'', Lit ''>'', GroupStarNot CHR ''<'', Lit ''</mark>'']"

definition divPattern :: "atom list" where
  "divPattern =
     [Lit ''<div'', StarNot CHR ''>'', Lit (''class='' @ [CHR 0x22] @ ''cell-bg-''),
      StarNot (CHR 0x22), Lit [CHR 0x22], StarNot CHR ''>'', Lit ''>'',
      GroupStarNot CHR ''<'', Lit ''</div>'']"

definition isAlphaNumeric :: "char \<Rightarrow> bool" where
  "isAlphaNumeric c =
     (let n = (of_char c :: nat) in
      (97 \<le> n \<and> n \<le> 122) \<or> (65 \<le> n \<and> n \<le> 90) \<or> (48 \<le> n \<and> n \<le> 57))"

text \<open>\<^verbatim>\<open>getColorClass\<close>: the first \<^verbatim>\<open>#\<close> is removed, then every code unit that
  is not a letter or a digit.\<close>

definition getColorClass :: "string \<Rightarrow> string" where
  "getColorClass color = ''cell-bg-'' @ filter isAlphaNumeric (remove1 CHR ''#'' color)"

text \<open>\<^verbatim>\<open>applyCellColor(cell, color)\<close>. The style rule that \<^verbatim>\<open>addColorCSS\<close> adds to
  the document is an effect on the host page and is left out.\<close>

definition applyCellColor :: "TableCell \<Rightarrow> string \<Rightarrow> TableCell" where
  "applyCellColor cell color =
     (let cleanContent = replaceByGroup tdPattern (content cell);
          cleanContent = replaceByGroup spanPattern cleanContent;
          cleanContent = replaceByGroup markPattern cleanContent;
          cleanContent = replaceByGroup divPattern cleanContent
      in if color \<noteq> [] then
           (let colorClass = getColorClass color;
                contentToWrap = (if trim cleanContent = [] then ''&nbsp;'' else cleanContent)
            in cell\<lparr>content := ''<div class='' @ [CHR 0x22] @ colorClass @ [CHR 0x22] @ ''>'' @
                                  contentToWrap @ ''</div>''\<rparr>)
         else cell\<lparr>content := cleanContent\<rparr>)"

subsection \<open>CSV import\<close>

text \<open>The scanning loop of \<^verbatim>\<open>parseCSVLine\<close>, with its three variables as
  arguments.\<close>

fun parseCSVChars :: "string \<Rightarrow> string list \<Rightarrow> string \<Rightarrow> bool \<Rightarrow> string list" where
  "parseCSVChars [] cellsAcc currentCell inQuotes = cellsAcc @ [trim currentCell]"
| "parseCSVChars (c # rest) cellsAcc currentCell inQuotes =
     (if c = CHR 0x22 then
        (case rest of
           c' # rest' \<Rightarrow>
             if inQuotes \<and> c' = CHR 0x22
             then parseCSVChars rest' cellsAcc (currentCell @ [CHR 0x22]) inQuotes
             else parseCSVChars rest cellsAcc currentCell (\<not> inQuotes)
         | [] \<Rightarrow> parseCSVChars rest cellsAcc currentCell (\<not> inQuotes))
      else if c = CHR '','' \<and> \<not> inQuotes
      then parseCSVChars rest (cellsAcc @ [trim currentCell]) [] inQuotes
      else parseCSVChars rest cellsAcc (currentCell @ [c]) inQuotes)"

definition parseCSVLine :: "string \<Rightarrow> string list" where
  "parseCSVLine line = parseCSVChars line [] [] False"

definition createMarkdownTableFromData :: "string list \<Rightarrow> string list list \<Rightarrow> string" where
  "createMarkdownTableFromData hdrs dataRows =
     join [newline]
       ([rowLine hdrs, rowLine (map (\<lambda>_. ''---'') hdrs)] @ map rowLine dataRows)
     @ [newline]"

definition convertCSVToTable :: "Editor option \<Rightarrow> string \<Rightarrow> outcome" where
  "convertCSVToTable activeEditor csvContent =
     (case activeEditor of
        None \<Rightarrow> Reported ''No active editor found''
      | Some editor \<Rightarrow>
          (let lines = split newline (trim csvContent) in
           if length lines < 2
           then Reported ''CSV must have at least a header and one data row''
           else
             let parsedRows = map parseCSVLine lines;
                 hdrs = hd parsedRows;
                 dataRows = tl parsedRows;
                 table = createMarkdownTableFromData hdrs dataRows
             in Inserted table (cursorLine editor) (cursorCh editor)
                  (''CSV imported: '' @ showNat (length hdrs) @ '' columns, '' @
                   showNat (length dataRows) @ '' rows'')))"

section \<open>Vocabulary of the statements\<close>

text \<open>A list with the element at \<open>fromIndex\<close> taken out and put back at \<open>toIndex\<close>.\<close>

definition moveElement :: "nat \<Rightarrow> nat \<Rightarrow> 'a list \<Rightarrow> 'a list" where
  "moveElement fromIndex toIndex xs =
     (let rest = take fromIndex xs @ drop (Suc fromIndex) xs
      in take toIndex rest @ [xs ! fromIndex] @ drop toIndex rest)"

text \<open>A table is well formed when every cell is trimmed and holds neither a pipe nor a
  line break, and every separator token is trimmed, free of line breaks and made of
  hyphens, colons and white space. The tables the parser returns are of this kind, and so
  is every table whose separator tokens pass the validator's test.\<close>

definition wellFormedCell :: "string \<Rightarrow> bool" where
  "wellFormedCell c = (trim c = c \<and> CHR ''|'' \<notin> set c \<and> newline \<notin> set c)"

definition wellFormedToken :: "string \<Rightarrow> bool" where
  "wellFormedToken tok =
     (trim tok = tok \<and> newline \<notin> set tok \<and>
      list_all (\<lambda>c. isWhiteSpace c \<or> c = CHR ''-'' \<or> c = CHR '':'') tok)"

definition wellFormedRow :: "TableRow \<Rightarrow> bool" where
  "wellFormedRow row = list_all (\<lambda>cell. wellFormedCell (content cell)) (cells row)"

definition wellFormedTable :: "ParsedTable \<Rightarrow> bool" where
  "wellFormedTable table =
     (wellFormedRow (headers table) \<and> list_all wellFormedToken (separator table) \<and>
      list_all wellFormedRow (rows table))"

section \<open>Facts about the parser\<close>

lemma split_not_Nil: "split d s \<noteq> []"
  by (induction s) (auto split: list.splits)

lemma parseTableRow_cells_not_Nil: "cells (parseTableRow line) \<noteq> []"
  by (simp add: parseTableRow_def Let_def split_not_Nil)

lemma parseRows_step:
  "i < length lines \<Longrightarrow> isTableLine (lines ! i) \<Longrightarrow>
   parseRows lines i acc = parseRows lines (Suc i) (acc @ [parseTableRow (lines ! i)])"
  using parseRows.simps [of lines i acc] by simp

lemma parseRows_stop:
  "\<not> (i < length lines \<and> isTableLine (lines ! i)) \<Longrightarrow> parseRows lines i acc = (acc, i)"
  using parseRows.simps [of lines i acc] by auto

lemma parseRows_cells_not_Nil:
  "\<forall>r \<in> set acc. cells r \<noteq> [] \<Longrightarrow>
   \<forall>r \<in> set (fst (parseRows lines i acc)). cells r \<noteq> []"
proof (induction lines i acc rule: parseRows.induct)
  case (1 lines i acc)
  show ?case
  proof (cases "i < length lines \<and> isTableLine (lines ! i)")
    case True
    have eq: "parseRows lines i acc = parseRows lines (Suc i) (acc @ [parseTableRow (lines ! i)])"
      using True by (simp add: parseRows_step)
    have "\<forall>r \<in> set (acc @ [parseTableRow (lines ! i)]). cells r \<noteq> []"
      using "1.prems" by (simp add: parseTableRow_cells_not_Nil)
    then show ?thesis using "1.IH" True unfolding eq by blast
  next
    case False
    have "parseRows lines i acc = (acc, i)"
      using False by (rule parseRows_stop)
    then show ?thesis using "1.prems" by simp
  qed
qed

lemma parseTable_Some:
  assumes "parseTable text start = Inr (Some t)"
  shows "t = \<lparr>headers = parseTableRow (split newline text ! findTableStart (split newline text) (nat start)),
        separator = parseSeparator (split newline text ! Suc (findTableStart (split newline text) (nat start))),
        rows = fst (parseRows (split newline text) (Suc (Suc (findTableStart (split newline text) (nat start)))) []),
        startLine = int (findTableStart (split newline text) (nat start)),
        endLine = int (snd (parseRows (split newline text) (Suc (Suc (findTableStart (split newline text) (nat start)))) [])) - 1\<rparr>"
  using assms unfolding parseTable_def Let_def
  by (simp split: if_splits prod.splits)

lemma findTableStart_step:
  "i < length lines \<Longrightarrow> \<not> isTableLine (lines ! i) \<Longrightarrow>
   findTableStart lines i = findTableStart lines (Suc i)"
  using findTableStart.simps [of lines i] by simp

lemma findTableStart_stop:
  "\<not> (i < length lines \<and> \<not> isTableLine (lines ! i)) \<Longrightarrow> findTableStart lines i = i"
  using findTableStart.simps [of lines i] by auto

lemma findTableStart_first:
  "n \<le> i \<Longrightarrow> i < length lines \<Longrightarrow> isTableLine (lines ! i) \<Longrightarrow>
   \<forall>j. n \<le> j \<and> j < i \<longrightarrow> \<not> isTableLine (lines ! j) \<Longrightarrow>
   findTableStart lines n = i"
proof (induction lines n rule: findTableStart.induct)
  case (1 lines n)
  show ?case
  proof (cases "n = i")
    case True
    then show ?thesis using "1.prems" by (simp add: findTableStart_stop)
  next
    case False
    then have lt: "n < i" using "1.prems" by simp
    then have nt: "n < length lines" "\<not> isTableLine (lines ! n)"
      using "1.prems" by auto
    have "findTableStart lines (Suc n) = i"
      using "1.IH" nt lt "1.prems" by auto
    then show ?thesis using nt by (simp add: findTableStart_step)
  qed
qed

lemma findTableStart_props:
  "n \<le> findTableStart lines n \<and>
   (findTableStart lines n < length lines \<longrightarrow> isTableLine (lines ! findTableStart lines n)) \<and>
   (\<forall>j. n \<le> j \<and> j < findTableStart lines n \<longrightarrow> \<not> isTableLine (lines ! j))"
proof (induction lines n rule: findTableStart.induct)
  case (1 lines n)
  show ?case
  proof (cases "n < length lines \<and> \<not> isTableLine (lines ! n)")
    case True
    then have eq: "findTableStart lines n = findTableStart lines (Suc n)"
      by (simp add: findTableStart_step)
    have "\<And>j. n \<le> j \<Longrightarrow> j < findTableStart lines (Suc n) \<Longrightarrow> \<not> isTableLine (lines ! j)"
    proof -
      fix j assume "n \<le> j" "j < findTableStart lines (Suc n)"
      then show "\<not> isTableLine (lines ! j)"
        using "1.IH" True by (cases "j = n") auto
    qed
    then show ?thesis using "1.IH" True unfolding eq by auto
  next
    case False
    then have "findTableStart lines n = n" by (rule findTableStart_stop)
    then show ?thesis using False by auto
  qed
qed

text \<open>
  Claim C10. Every table that \<open>parseTable\<close> returns has at least one header cell, and
  every one of its rows has at least one cell: a row is built from the fields of a split,
  and a split has at least one field. The parser never produces a table with no column.
\<close>

theorem parseTable_columns_ge_1:
  assumes "parseTable text start = Inr (Some t)"
  shows "length (cells (headers t)) \<ge> 1 \<and> (\<forall>r \<in> set (rows t). length (cells r) \<ge> 1)"
proof -
  have "cells (headers t) \<noteq> []"
    by (subst parseTable_Some [OF assms]) (simp add: parseTableRow_cells_not_Nil)
  moreover have "\<forall>r \<in> set (rows t). cells r \<noteq> []"
    using parseRows_cells_not_Nil [of "[]"]
    by (subst parseTable_Some [OF assms]) simp
  ultimately show ?thesis by (auto simp: Suc_le_eq)
qed

theorem parseTable_columns_ge_1_witness:
  "parseTable (''| a | b |'' @ [newline] @ ''| - | - |'' @ [newline] @ ''||'') 0 =
     Inr (Some \<lparr>headers = \<lparr>cells = [\<lparr>content = ''a''\<rparr>, \<lparr>content = ''b''\<rparr>]\<rparr>,
                 separator = [''-'', ''-''], rows = [\<lparr>cells = [\<lparr>content = []\<rparr>]\<rparr>],
                 startLine = 0, endLine = 2\<rparr>) \<and>
   length [\<lparr>content = ''a''\<rparr>, \<lparr>content = ''b''\<rparr>] \<ge> 1 \<and>
   length (cells \<lparr>cells = [\<lparr>content = []\<rparr>]\<rparr>) \<ge> 1"
proof -
  have p: "parseTable (''| a | b |'' @ [newline] @ ''| - | - |'' @ [newline] @ ''||'') 0 =
     Inr (Some \<lparr>headers = \<lparr>cells = [\<lparr>content = ''a''\<rparr>, \<lparr>content = ''b''\<rparr>]\<rparr>,
                 separator = [''-'', ''-''], rows = [\<lparr>cells = [\<lparr>content = []\<rparr>]\<rparr>],
                 startLine = 0, endLine = 2\<rparr>)"
    by code_simp
  show ?thesis using p parseTable_columns_ge_1 [OF p] by simp
qed

text \<open>
  Claim C2. Parsing from a line \<open>start \<ge> 0\<close> never throws. When the first table-shaped
  line at or after \<open>start\<close> is line \<open>i\<close> and line \<open>i + 1\<close> is missing or is not a separator
  line (trimmed, bounded by pipes, made of pipes, white space, hyphens and colons only),
  \<open>parseTable\<close> returns null. Conversely every table that is returned has a valid
  separator line right after its header line.
\<close>

theorem parseTable_null_without_separator:
  assumes start: "0 \<le> start"
  shows "(\<exists>r. parseTable text start = Inr r) \<and>
         (\<forall>i. nat start \<le> i \<and> i < length (split newline text) \<and>
              isTableLine (split newline text ! i) \<and>
              (\<forall>j. nat start \<le> j \<and> j < i \<longrightarrow> \<not> isTableLine (split newline text ! j)) \<and>
              \<not> (Suc i < length (split newline text) \<and> isSeparatorLine (split newline text ! Suc i))
              \<longrightarrow> parseTable text start = Inr None) \<and>
         (\<forall>t. parseTable text start = Inr (Some t) \<longrightarrow>
              nat (startLine t) + 1 < length (split newline text) \<and>
              isTableLine (split newline text ! nat (startLine t)) \<and>
              isSeparatorLine (split newline text ! (nat (startLine t) + 1)))"
proof (intro conjI allI impI)
  show "\<exists>r. parseTable text start = Inr r"
    using start unfolding parseTable_def Let_def by (simp split: prod.splits)
next
  fix i
  assume a: "nat start \<le> i \<and> i < length (split newline text) \<and>
              isTableLine (split newline text ! i) \<and>
              (\<forall>j. nat start \<le> j \<and> j < i \<longrightarrow> \<not> isTableLine (split newline text ! j)) \<and>
              \<not> (Suc i < length (split newline text) \<and> isSeparatorLine (split newline text ! Suc i))"
  then have "findTableStart (split newline text) (nat start) = i"
    by (intro findTableStart_first) auto
  then show "parseTable text start = Inr None"
    using a start unfolding parseTable_def Let_def by auto
next
  fix t
  assume t: "parseTable text start = Inr (Some t)"
  let ?i = "findTableStart (split newline text) (nat start)"
  from t have "startLine t = int ?i" by (simp add: parseTable_Some [OF t])
  moreover from t have "Suc ?i < length (split newline text) \<and> isSeparatorLine (split newline text ! Suc ?i)"
    unfolding parseTable_def Let_def by (simp split: if_splits prod.splits)
  moreover have "isTableLine (split newline text ! ?i)"
    using findTableStart_props [of "nat start" "split newline text"] calculation by simp
  ultimately show "nat (startLine t) + 1 < length (split newline text)"
    "isTableLine (split newline text ! nat (startLine t))"
    "isSeparatorLine (split newline text ! (nat (startLine t) + 1))" by simp_all
qed

theorem parseTable_null_without_separator_witness:
  "(0::int) \<le> 0 \<and> isTableLine ''| a |'' \<and> \<not> isSeparatorLine ''| 1 |'' \<and>
   parseTable (''x'' @ [newline] @ ''| a |'' @ [newline] @ ''| 1 |'') 0 = Inr None"
proof -
  let ?text = "''x'' @ [newline] @ ''| a |'' @ [newline] @ ''| 1 |''"
  have lines: "split newline ?text = [''x'', ''| a |'', ''| 1 |'']"
    by (simp add: newline_def)
  have lines': "isTableLine ''| a |'' \<and> \<not> isTableLine ''x'' \<and> \<not> isSeparatorLine ''| 1 |''"
    by code_simp
  have "nat 0 \<le> (1::nat) \<and> 1 < length (split newline ?text) \<and>
        isTableLine (split newline ?text ! 1) \<and>
        (\<forall>j. nat 0 \<le> j \<and> j < 1 \<longrightarrow> \<not> isTableLine (split newline ?text ! j)) \<and>
        \<not> (Suc 1 < length (split newline ?text) \<and> isSeparatorLine (split newline ?text ! Suc 1))"
    unfolding lines using lines' by simp
  with parseTable_null_without_separator [of 0 ?text]
  have "parseTable ?text 0 = Inr None" by blast
  then show ?thesis using lines' by simp
qed

section \<open>Facts about the structural commands\<close>

lemma row_butlast: "(if length (cells row) > 0 then \<lparr>cells = butlast (cells row)\<rparr> else row) = \<lparr>cells = butlast (cells row)\<rparr>"
  by (cases row) simp

text \<open>
  Claim C5. For the table found at the cursor: with exactly one header cell
  \<open>deleteColumn\<close> only reports that it cannot delete, and with no data row \<open>deleteRow\<close>
  only reports that it cannot delete; neither throws nor writes. Otherwise \<open>deleteRow\<close>
  drops the last row, and \<open>deleteColumn\<close> drops the last header cell and the last cell of
  every row, and the table is rewritten.
\<close>

theorem delete_boundary_refusals:
  assumes found: "getTableAtCursor (getValue editor) (cursorLine editor) = Inr (Some table)"
  shows "(length (cells (headers table)) = 1 \<longrightarrow>
            deleteColumnTable table = Inl ''Cannot delete column: table must have at least one column'' \<and>
            deleteColumn (Some editor) =
              Inr (Reported ''Cannot delete column: table must have at least one column'')) \<and>
         (length (rows table) = 0 \<longrightarrow>
            deleteRowTable table = Inl ''Cannot delete row: table has no data rows'' \<and>
            deleteRow (Some editor) = Inr (Reported ''Cannot delete row: table has no data rows'')) \<and>
         (length (rows table) > 0 \<longrightarrow>
            deleteRowTable table = Inr (table\<lparr>rows := butlast (rows table)\<rparr>) \<and>
            deleteRow (Some editor) =
              Inr (regenerate (table\<lparr>rows := butlast (rows table)\<rparr>) ''Row deleted'')) \<and>
         (length (cells (headers table)) > 1 \<longrightarrow>
            deleteColumnTable table =
              Inr (table\<lparr>headers := \<lparr>cells = butlast (cells (headers table))\<rparr>,
                         rows := map (\<lambda>row. \<lparr>cells = butlast (cells row)\<rparr>) (rows table)\<rparr>) \<and>
            deleteColumn (Some editor) =
              Inr (regenerate
                     (table\<lparr>headers := \<lparr>cells = butlast (cells (headers table))\<rparr>,
                            rows := map (\<lambda>row. \<lparr>cells = butlast (cells row)\<rparr>) (rows table)\<rparr>)
                     ''Column deleted''))"
proof (intro conjI impI)
  assume "length (cells (headers table)) = 1"
  then show "deleteColumnTable table = Inl ''Cannot delete column: table must have at least one column''"
    by (simp add: deleteColumnTable_def)
  then show "deleteColumn (Some editor) =
              Inr (Reported ''Cannot delete column: table must have at least one column'')"
    by (simp add: deleteColumn_def found)
next
  assume "length (rows table) = 0"
  then show "deleteRowTable table = Inl ''Cannot delete row: table has no data rows''"
    by (simp add: deleteRowTable_def)
  then show "deleteRow (Some editor) = Inr (Reported ''Cannot delete row: table has no data rows'')"
    by (simp add: deleteRow_def found)
next
  assume "length (rows table) > 0"
  then show "deleteRowTable table = Inr (table\<lparr>rows := butlast (rows table)\<rparr>)"
    by (simp add: deleteRowTable_def)
  then show "deleteRow (Some editor) =
              Inr (regenerate (table\<lparr>rows := butlast (rows table)\<rparr>) ''Row deleted'')"
    by (simp add: deleteRow_def found)
next
  assume "length (cells (headers table)) > 1"
  then show "deleteColumnTable table =
              Inr (table\<lparr>headers := \<lparr>cells = butlast (cells (headers table))\<rparr>,
                         rows := map (\<lambda>row. \<lparr>cells = butlast (cells row)\<rparr>) (rows table)\<rparr>)"
    by (simp add: deleteColumnTable_def row_butlast)
  then show "deleteColumn (Some editor) =
              Inr (regenerate
                     (table\<lparr>headers := \<lparr>cells = butlast (cells (headers table))\<rparr>,
                            rows := map (\<lambda>row. \<lparr>cells = butlast (cells row)\<rparr>) (rows table)\<rparr>)
                     ''Column deleted'')"
    by (simp add: deleteColumn_def found)
qed

theorem delete_boundary_refusals_witness:
  "deleteColumn (Some \<lparr>getValue = ''| a |'' @ [newline] @ ''| - |'', cursorLine = 0, cursorCh = 0\<rparr>) =
     Inr (Reported ''Cannot delete column: table must have at least one column'') \<and>
   deleteRow (Some \<lparr>getValue = ''| a |'' @ [newline] @ ''| - |'', cursorLine = 0, cursorCh = 0\<rparr>) =
     Inr (Reported ''Cannot delete row: table has no data rows'') \<and>
   deleteRow (Some \<lparr>getValue = ''| a | b |'' @ [newline] @ ''| - | - |'' @ [newline] @ ''| 1 | 2 |'',
                     cursorLine = 2, cursorCh = 0\<rparr>) =
     Inr (Replaced (''| a | b |'' @ [newline] @ ''| --- | --- |'' @ [newline]) 0 3 ''Row deleted'') \<and>
   deleteColumn (Some \<lparr>getValue = ''| a | b |'' @ [newline] @ ''| - | - |'' @ [newline] @ ''| 1 | 2 |'',
                        cursorLine = 2, cursorCh = 0\<rparr>) =
     Inr (Replaced (''| a |'' @ [newline] @ ''| --- |'' @ [newline] @ ''| 1 |'' @ [newline]) 0 3
            ''Column deleted'')"
proof -
  let ?e1 = "\<lparr>getValue = ''| a |'' @ [newline] @ ''| - |'', cursorLine = 0, cursorCh = 0\<rparr>"
  let ?t1 = "\<lparr>headers = \<lparr>cells = [\<lparr>content = ''a''\<rparr>]\<rparr>, separator = [''-''], rows = [],
              startLine = 0, endLine = 1\<rparr>"
  let ?e2 = "\<lparr>getValue = ''| a | b |'' @ [newline] @ ''| - | - |'' @ [newline] @ ''| 1 | 2 |'',
              cursorLine = 2, cursorCh = 0\<rparr>"
  let ?t2 = "\<lparr>headers = \<lparr>cells = [\<lparr>content = ''a''\<rparr>, \<lparr>content = ''b''\<rparr>]\<rparr>,
              separator = [''-'', ''-''],
              rows = [\<lparr>cells = [\<lparr>content = ''1''\<rparr>, \<lparr>content = ''2''\<rparr>]\<rparr>],
              startLine = 0, endLine = 2\<rparr>"
  have p1: "getTableAtCursor (getValue ?e1) (cursorLine ?e1) = Inr (Some ?t1)"
    by code_simp
  have p2: "getTableAtCursor (getValue ?e2) (cursorLine ?e2) = Inr (Some ?t2)"
    by code_simp
  have r1: "regenerate (?t2\<lparr>rows := butlast (rows ?t2)\<rparr>) ''Row deleted'' =
            Replaced (''| a | b |'' @ [newline] @ ''| --- | --- |'' @ [newline]) 0 3 ''Row deleted''"
    by code_simp
  have r2: "regenerate (?t2\<lparr>headers := \<lparr>cells = butlast (cells (headers ?t2))\<rparr>,
                             rows := map (\<lambda>row. \<lparr>cells = butlast (cells row)\<rparr>) (rows ?t2)\<rparr>)
              ''Column deleted'' =
            Replaced (''| a |'' @ [newline] @ ''| --- |'' @ [newline] @ ''| 1 |'' @ [newline]) 0 3
              ''Column deleted''"
    by code_simp
  show ?thesis
    using delete_boundary_refusals [OF p1] delete_boundary_refusals [OF p2] r1 r2 by simp
qed

lemma spliceMove_in_range:
  "f < length xs \<Longrightarrow> spliceMove f t xs = map Some (moveElement f t xs)"
  by (simp add: spliceMove_def moveElement_def Let_def take_map drop_map)

lemma moveElement_length:
  "f < length xs \<Longrightarrow> length (moveElement f t xs) = length xs"
  by (auto simp: moveElement_def Let_def min_def)

lemma moveElement_nth:
  "f < length xs \<Longrightarrow> t < length xs \<Longrightarrow> moveElement f t xs ! t = xs ! f"
  by (auto simp: moveElement_def Let_def nth_append min_def)

lemma moveElement_others:
  assumes "f < length xs" "t < length xs"
  shows "take t (moveElement f t xs) @ drop (Suc t) (moveElement f t xs) =
         take f xs @ drop (Suc f) xs"
proof -
  define rest where "rest = take f xs @ drop (Suc f) xs"
  have len: "length (take t rest) = t"
    using assms by (auto simp: rest_def min_def)
  have mv: "moveElement f t xs = take t rest @ (xs ! f) # drop t rest"
    by (simp add: moveElement_def rest_def)
  have "take t (moveElement f t xs) = take t rest"
    unfolding mv using len by simp
  moreover have "drop (Suc t) (moveElement f t xs) = drop t rest"
    unfolding mv using len by (simp add: drop_append)
  ultimately show ?thesis by (simp add: rest_def [symmetric])
qed

lemma contents_Some: "contents (map Some cs) = Inr (map content cs)"
  by (induction cs) auto

lemma rowLines_Some:
  "rowLines (map (\<lambda>r. map Some (g r)) rs) = Inr (map (\<lambda>r. rowLine (map content (g r))) rs)"
  by (induction rs) (auto simp: contents_Some)

lemma generateSpliced_Some:
  "generateSpliced \<lparr>splicedHeaders = map Some hs, splicedSeparator = map Some sep,
                    splicedRows = map (\<lambda>r. map Some (g r)) rs\<rparr> =
   Inr (generateTable \<lparr>headers = \<lparr>cells = hs\<rparr>, separator = sep,
                       rows = map (\<lambda>r. \<lparr>cells = g r\<rparr>) rs, startLine = a, endLine = b\<rparr>)"
  by (simp add: generateSpliced_def generateTable_def contents_Some rowLines_Some comp_def)

lemma moveColumn_refused_state:
  assumes "fromIndex < 0 \<or> fromIndex \<ge> int (length (cells (headers table))) \<or>
           toIndex < 0 \<or> toIndex \<ge> int (length (cells (headers table)))"
  shows "moveColumnTable table fromIndex toIndex = Inl ''Invalid column indices''"
  using assms by (auto simp: moveColumnTable_def)

text \<open>
  What \<open>moveColumn\<close> does on the table found at the cursor, for any two indices. When
  either index is outside the header range it only reports invalid indices: the header,
  the separator and the rows are not touched, nothing is written and the manager is
  unchanged. When both are in range and the separator and every row hold both positions
  (rows may be wider than the header), the header cell, the separator token and the cell
  of every row at \<open>fromIndex\<close> all move to \<open>toIndex\<close>, and that table is written back.
\<close>

theorem moveColumn_atomic:
  fixes this :: TableManager
  assumes found: "getTableAtCursor (getValue editor) (cursorLine editor) = Inr (Some table)"
  defines "n \<equiv> int (length (cells (headers table)))"
  shows "((fromIndex < 0 \<or> fromIndex \<ge> n \<or> toIndex < 0 \<or> toIndex \<ge> n) \<longrightarrow>
            moveColumnTable table fromIndex toIndex = Inl ''Invalid column indices'' \<and>
            moveColumn this (Some editor) fromIndex toIndex =
              (Inr (Reported ''Invalid column indices''), this)) \<and>
         (0 \<le> fromIndex \<and> fromIndex < n \<and> 0 \<le> toIndex \<and> toIndex < n \<and>
          nat fromIndex < length (separator table) \<and> nat toIndex < length (separator table) \<and>
          list_all (\<lambda>row. nat fromIndex < length (cells row) \<and> nat toIndex < length (cells row))
                   (rows table) \<longrightarrow>
            moveColumnTable table fromIndex toIndex =
              Inr \<lparr>splicedHeaders =
                     map Some (moveElement (nat fromIndex) (nat toIndex) (cells (headers table))),
                   splicedSeparator =
                     map Some (moveElement (nat fromIndex) (nat toIndex) (separator table)),
                   splicedRows =
                     map (\<lambda>row. map Some (moveElement (nat fromIndex) (nat toIndex) (cells row)))
                         (rows table)\<rparr> \<and>
            moveColumn this (Some editor) fromIndex toIndex =
              (Inr (Replaced
                      (generateTable
                         (table\<lparr>headers :=
                                  \<lparr>cells = moveElement (nat fromIndex) (nat toIndex)
                                             (cells (headers table))\<rparr>,
                                separator :=
                                  moveElement (nat fromIndex) (nat toIndex) (separator table),
                                rows :=
                                  map (\<lambda>row. \<lparr>cells = moveElement (nat fromIndex) (nat toIndex)
                                                         (cells row)\<rparr>) (rows table)\<rparr>)
                       @ [newline])
                      (startLine table) (endLine table + 1)
                      (''Column moved from '' @ showNat (nat (fromIndex + 1)) @ '' to '' @
                       showNat (nat (toIndex + 1)))),
               this\<lparr>lastModifiedColumn := toIndex\<rparr>) \<and>
            moveElement (nat fromIndex) (nat toIndex) (cells (headers table)) ! nat toIndex =
              cells (headers table) ! nat fromIndex \<and>
            moveElement (nat fromIndex) (nat toIndex) (separator table) ! nat toIndex =
              separator table ! nat fromIndex \<and>
            list_all (\<lambda>row. moveElement (nat fromIndex) (nat toIndex) (cells row) ! nat toIndex =
                             cells row ! nat fromIndex) (rows table))"
proof (intro conjI impI)
  assume out: "fromIndex < 0 \<or> fromIndex \<ge> n \<or> toIndex < 0 \<or> toIndex \<ge> n"
  then show r: "moveColumnTable table fromIndex toIndex = Inl ''Invalid column indices''"
    unfolding n_def by (rule moveColumn_refused_state)
  show "moveColumn this (Some editor) fromIndex toIndex =
              (Inr (Reported ''Invalid column indices''), this)"
    by (simp add: moveColumn_def found r)
next
  assume ok: "0 \<le> fromIndex \<and> fromIndex < n \<and> 0 \<le> toIndex \<and> toIndex < n \<and>
          nat fromIndex < length (separator table) \<and> nat toIndex < length (separator table) \<and>
          list_all (\<lambda>row. nat fromIndex < length (cells row) \<and> nat toIndex < length (cells row))
                   (rows table)"
  let ?f = "nat fromIndex" and ?t = "nat toIndex"
  have f: "?f < length (cells (headers table))" and t: "?t < length (cells (headers table))"
    using ok by (auto simp: n_def)
  have fs: "?f < length (separator table)" and ts: "?t < length (separator table)"
    using ok by simp_all
  have rows_len: "\<forall>row \<in> set (rows table). ?f < length (cells row) \<and> ?t < length (cells row)"
    using ok by (simp add: list_all_iff)
  have rs: "map (\<lambda>row. spliceMove ?f ?t (cells row)) (rows table) =
            map (\<lambda>row. map Some (moveElement ?f ?t (cells row))) (rows table)"
    using rows_len by (simp add: spliceMove_in_range)
  show m: "moveColumnTable table fromIndex toIndex =
              Inr \<lparr>splicedHeaders = map Some (moveElement ?f ?t (cells (headers table))),
                   splicedSeparator = map Some (moveElement ?f ?t (separator table)),
                   splicedRows = map (\<lambda>row. map Some (moveElement ?f ?t (cells row))) (rows table)\<rparr>"
    using ok f fs rs by (simp add: moveColumnTable_def n_def spliceMove_in_range)
  have tbl: "table\<lparr>headers := \<lparr>cells = moveElement ?f ?t (cells (headers table))\<rparr>,
                   separator := moveElement ?f ?t (separator table),
                   rows := map (\<lambda>row. \<lparr>cells = moveElement ?f ?t (cells row)\<rparr>) (rows table)\<rparr> =
             \<lparr>headers = \<lparr>cells = moveElement ?f ?t (cells (headers table))\<rparr>,
              separator = moveElement ?f ?t (separator table),
              rows = map (\<lambda>row. \<lparr>cells = moveElement ?f ?t (cells row)\<rparr>) (rows table),
              startLine = startLine table, endLine = endLine table\<rparr>"
    by (cases table) simp
  show "moveColumn this (Some editor) fromIndex toIndex =
              (Inr (Replaced
                      (generateTable
                         (table\<lparr>headers := \<lparr>cells = moveElement ?f ?t (cells (headers table))\<rparr>,
                                separator := moveElement ?f ?t (separator table),
                                rows := map (\<lambda>row. \<lparr>cells = moveElement ?f ?t (cells row)\<rparr>) (rows table)\<rparr>)
                       @ [newline])
                      (startLine table) (endLine table + 1)
                      (''Column moved from '' @ showNat (nat (fromIndex + 1)) @ '' to '' @
                       showNat (nat (toIndex + 1)))),
               this\<lparr>lastModifiedColumn := toIndex\<rparr>)"
    unfolding tbl
    by (simp add: moveColumn_def found m generateSpliced_Some [where a = "startLine table" and b = "endLine table"])
  show "moveElement ?f ?t (cells (headers table)) ! ?t = cells (headers table) ! ?f"
    using f t by (rule moveElement_nth)
  show "moveElement ?f ?t (separator table) ! ?t = separator table ! ?f"
    using fs ts by (rule moveElement_nth)
  show "list_all (\<lambda>row. moveElement ?f ?t (cells row) ! ?t = cells row ! ?f) (rows table)"
    using rows_len by (simp add: list_all_iff moveElement_nth)
qed

theorem moveColumn_atomic_witness:
  "moveColumn (newTableManager True)
     (Some \<lparr>getValue = ''| a | b |'' @ [newline] @ ''| - | :-: |'' @ [newline] @ ''| 1 | 2 |'',
            cursorLine = 2, cursorCh = 0\<rparr>) 0 2 =
     (Inr (Reported ''Invalid column indices''), newTableManager True) \<and>
   moveColumn (newTableManager True)
     (Some \<lparr>getValue = ''| a | b |'' @ [newline] @ ''| - | :-: |'' @ [newline] @ ''| 1 | 2 |'',
            cursorLine = 2, cursorCh = 0\<rparr>) 0 1 =
     (Inr (Replaced (''| b | a |'' @ [newline] @ ''| :-: | - |'' @ [newline] @ ''| 2 | 1 |'' @ [newline])
             0 3 ''Column moved from 1 to 2''),
      (newTableManager True)\<lparr>lastModifiedColumn := 1\<rparr>)"
proof -
  let ?e = "\<lparr>getValue = ''| a | b |'' @ [newline] @ ''| - | :-: |'' @ [newline] @ ''| 1 | 2 |'',
              cursorLine = 2, cursorCh = 0\<rparr>"
  let ?t = "\<lparr>headers = \<lparr>cells = [\<lparr>content = ''a''\<rparr>, \<lparr>content = ''b''\<rparr>]\<rparr>,
              separator = [''-'', '':-:''],
              rows = [\<lparr>cells = [\<lparr>content = ''1''\<rparr>, \<lparr>content = ''2''\<rparr>]\<rparr>],
              startLine = 0, endLine = 2\<rparr>"
  have p: "getTableAtCursor (getValue ?e) (cursorLine ?e) = Inr (Some ?t)"
    by code_simp
  have g: "generateTable
             (?t\<lparr>headers := \<lparr>cells = moveElement (nat 0) (nat 1) (cells (headers ?t))\<rparr>,
                 separator := moveElement (nat 0) (nat 1) (separator ?t),
                 rows := map (\<lambda>row. \<lparr>cells = moveElement (nat 0) (nat 1) (cells row)\<rparr>) (rows ?t)\<rparr>)
           = ''| b | a |'' @ [newline] @ ''| :-: | - |'' @ [newline] @ ''| 2 | 1 |''"
    by code_simp
  have n: "''Column moved from '' @ showNat (nat (0 + 1)) @ '' to '' @ showNat (nat (1 + 1)) =
           ''Column moved from 1 to 2''"
    by code_simp
  have a: "moveColumn (newTableManager True) (Some ?e) 0 2 =
             (Inr (Reported ''Invalid column indices''), newTableManager True)"
    using moveColumn_atomic [OF p, of 0 2 "newTableManager True"] by simp
  have b: "moveColumn (newTableManager True) (Some ?e) 0 1 =
     (Inr (Replaced (''| b | a |'' @ [newline] @ ''| :-: | - |'' @ [newline] @ ''| 2 | 1 |'' @ [newline])
             0 3 ''Column moved from 1 to 2''),
      (newTableManager True)\<lparr>lastModifiedColumn := 1\<rparr>)"
    using moveColumn_atomic [OF p, of 0 1 "newTableManager True"] g n by simp
  show ?thesis using a b by simp
qed

text \<open>
  Claim C4. The claim holds for indices outside the header range, and for indices in range
  on lists that hold both positions. It fails on ragged tables, which the parser returns,
  with both indices in the header range. On \<^verbatim>\<open>| a | b | c |\<close>, \<^verbatim>\<open>| - | - | - |\<close>,
  \<^verbatim>\<open>| 1 |\<close> the call \<^verbatim>\<open>moveColumn(2, 0)\<close> throws, after the manager has recorded the
  move and with nothing written: the row has no cell at index 2, an undefined one is put
  at index 0, and the generator fails on it. On \<^verbatim>\<open>| a | b |\<close>, \<^verbatim>\<open>| - |\<close>,
  \<^verbatim>\<open>| 1 | 2 |\<close> the call \<^verbatim>\<open>moveColumn(1, 0)\<close> moves the header cell and the row cell
  but no separator token: an empty token is written in front of the old one.
\<close>

theorem moveColumn_ragged_table:
  "getTableAtCursor (''| a | b | c |'' @ [newline] @ ''| - | - | - |'' @ [newline] @ ''| 1 |'') 0 =
     Inr (Some \<lparr>headers = \<lparr>cells = [\<lparr>content = ''a''\<rparr>, \<lparr>content = ''b''\<rparr>, \<lparr>content = ''c''\<rparr>]\<rparr>,
                 separator = [''-'', ''-'', ''-''],
                 rows = [\<lparr>cells = [\<lparr>content = ''1''\<rparr>]\<rparr>], startLine = 0, endLine = 2\<rparr>) \<and>
   moveColumn (newTableManager True)
     (Some \<lparr>getValue = ''| a | b | c |'' @ [newline] @ ''| - | - | - |'' @ [newline] @ ''| 1 |'',
            cursorLine = 0, cursorCh = 0\<rparr>) 2 0 =
     (Inl TypeError, (newTableManager True)\<lparr>lastModifiedColumn := 0\<rparr>) \<and>
   getTableAtCursor (''| a | b |'' @ [newline] @ ''| - |'' @ [newline] @ ''| 1 | 2 |'') 0 =
     Inr (Some \<lparr>headers = \<lparr>cells = [\<lparr>content = ''a''\<rparr>, \<lparr>content = ''b''\<rparr>]\<rparr>,
                 separator = [''-''],
                 rows = [\<lparr>cells = [\<lparr>content = ''1''\<rparr>, \<lparr>content = ''2''\<rparr>]\<rparr>],
                 startLine = 0, endLine = 2\<rparr>) \<and>
   moveColumn (newTableManager True)
     (Some \<lparr>getValue = ''| a | b |'' @ [newline] @ ''| - |'' @ [newline] @ ''| 1 | 2 |'',
            cursorLine = 0, cursorCh = 0\<rparr>) 1 0 =
     (Inr (Replaced (''| b | a |'' @ [newline] @ ''|  | - |'' @ [newline] @ ''| 2 | 1 |'' @ [newline])
             0 3 ''Column moved from 2 to 1''),
      (newTableManager True)\<lparr>lastModifiedColumn := 0\<rparr>)"
  by code_simp

section \<open>Facts about sorting and the cursor\<close>

lemma sortTable_Sorted:
  assumes "sortTable this activeEditor parsed specifiedColumn = (Sorted c asc, this')"
  shows "\<exists>editor table.
           activeEditor = Some editor \<and> parsed = Some table \<and> enableSorting this \<and>
           rows table \<noteq> [] \<and>
           c = resolveSortColumn this table specifiedColumn
                 (getCursorColumnIndex activeEditor table (cursorLine editor) (cursorCh editor)) \<and>
           asc = (if lastSortedColumn this = c then \<not> sortAscending this else True) \<and>
           this' = this\<lparr>sortAscending := asc, lastSortedColumn := c\<rparr>"
  using assms unfolding sortTable_def Let_def
  by (auto split: option.splits if_splits)

text \<open>
  Claim C3. Whenever \<open>sortTable\<close> gets as far as sorting, on column \<open>c\<close>: the direction
  is the negation of the stored one when \<open>c\<close> is the stored last sorted column and
  ascending otherwise, and \<open>c\<close> is stored as the last sorted column. So a following call
  that sorts the same column has the opposite direction (descending after ascending),
  and one that sorts another column is ascending. A column given explicitly and in range
  is the column sorted.
\<close>

theorem sortTable_direction_toggle:
  assumes first: "sortTable this activeEditor parsed specifiedColumn = (Sorted c asc, this')"
  shows "lastSortedColumn this' = c \<and> sortAscending this' = asc \<and>
         (c = lastSortedColumn this \<longrightarrow> asc = (\<not> sortAscending this)) \<and>
         (c \<noteq> lastSortedColumn this \<longrightarrow> asc = True) \<and>
         (\<forall>activeEditor2 parsed2 specifiedColumn2 c2 asc2 this''.
            sortTable this' activeEditor2 parsed2 specifiedColumn2 = (Sorted c2 asc2, this'') \<longrightarrow>
              (c2 = c \<longrightarrow> asc2 = (\<not> asc)) \<and> (c2 \<noteq> c \<longrightarrow> asc2 = True) \<and>
              lastSortedColumn this'' = c2) \<and>
         (\<forall>table k. parsed = Some table \<and> specifiedColumn = Some k \<and> 0 \<le> k \<and>
                    k < int (length (cells (headers table))) \<longrightarrow> c = k)"
proof -
  from sortTable_Sorted [OF first] obtain editor table where
    f: "activeEditor = Some editor" "parsed = Some table"
       "c = resolveSortColumn this table specifiedColumn
                 (getCursorColumnIndex activeEditor table (cursorLine editor) (cursorCh editor))"
       "asc = (if lastSortedColumn this = c then \<not> sortAscending this else True)"
       "this' = this\<lparr>sortAscending := asc, lastSortedColumn := c\<rparr>"
    by blast
  have a: "lastSortedColumn this' = c \<and> sortAscending this' = asc"
    using f by simp
  have b: "(c = lastSortedColumn this \<longrightarrow> asc = (\<not> sortAscending this)) \<and>
           (c \<noteq> lastSortedColumn this \<longrightarrow> asc = True)"
    using f(4) by auto
  have d: "\<And>activeEditor2 parsed2 specifiedColumn2 c2 asc2 this''.
            sortTable this' activeEditor2 parsed2 specifiedColumn2 = (Sorted c2 asc2, this'') \<Longrightarrow>
              (c2 = c \<longrightarrow> asc2 = (\<not> asc)) \<and> (c2 \<noteq> c \<longrightarrow> asc2 = True) \<and>
              lastSortedColumn this'' = c2"
  proof -
    fix activeEditor2 parsed2 specifiedColumn2 c2 asc2 this''
    assume "sortTable this' activeEditor2 parsed2 specifiedColumn2 = (Sorted c2 asc2, this'')"
    from sortTable_Sorted [OF this] a
    show "(c2 = c \<longrightarrow> asc2 = (\<not> asc)) \<and> (c2 \<noteq> c \<longrightarrow> asc2 = True) \<and>
              lastSortedColumn this'' = c2"
      by auto
  qed
  have e: "\<And>tb k. parsed = Some tb \<Longrightarrow> specifiedColumn = Some k \<Longrightarrow> 0 \<le> k \<Longrightarrow>
                    k < int (length (cells (headers tb))) \<Longrightarrow> c = k"
    using f(2,3) by (auto simp: resolveSortColumn_def)
  show ?thesis using a b d e by blast
qed

theorem sortTable_direction_toggle_witness:
  "sortTable (newTableManager True)
     (Some \<lparr>getValue = ''| Name | Age |'' @ [newline] @ ''| --- | --- |'' @ [newline] @
                       ''| John | 25 |'' @ [newline] @ ''| Jane | 30 |'',
            cursorLine = 2, cursorCh = 3\<rparr>)
     (Some \<lparr>headers = \<lparr>cells = [\<lparr>content = ''Name''\<rparr>, \<lparr>content = ''Age''\<rparr>]\<rparr>,
            separator = [''---'', ''---''],
            rows = [\<lparr>cells = [\<lparr>content = ''John''\<rparr>, \<lparr>content = ''25''\<rparr>]\<rparr>,
                    \<lparr>cells = [\<lparr>content = ''Jane''\<rparr>, \<lparr>content = ''30''\<rparr>]\<rparr>],
            startLine = 0, endLine = 3\<rparr>)
     (Some 0) =
   (Sorted 0 True, (newTableManager True)\<lparr>sortAscending := True, lastSortedColumn := 0\<rparr>) \<and>
   lastSortedColumn ((newTableManager True)\<lparr>sortAscending := True, lastSortedColumn := 0\<rparr>) = 0 \<and>
   sortTable ((newTableManager True)\<lparr>sortAscending := True, lastSortedColumn := 0\<rparr>)
     (Some \<lparr>getValue = ''| Name | Age |'' @ [newline] @ ''| --- | --- |'' @ [newline] @
                       ''| John | 25 |'' @ [newline] @ ''| Jane | 30 |'',
            cursorLine = 2, cursorCh = 3\<rparr>)
     (Some \<lparr>headers = \<lparr>cells = [\<lparr>content = ''Name''\<rparr>, \<lparr>content = ''Age''\<rparr>]\<rparr>,
            separator = [''---'', ''---''],
            rows = [\<lparr>cells = [\<lparr>content = ''John''\<rparr>, \<lparr>content = ''25''\<rparr>]\<rparr>,
                    \<lparr>cells = [\<lparr>content = ''Jane''\<rparr>, \<lparr>content = ''30''\<rparr>]\<rparr>],
            startLine = 0, endLine = 3\<rparr>)
     (Some 0) =
   (Sorted 0 False, (newTableManager True)\<lparr>sortAscending := False, lastSortedColumn := 0\<rparr>)"
proof -
  let ?e = "Some \<lparr>getValue = ''| Name | Age |'' @ [newline] @ ''| --- | --- |'' @ [newline] @
                       ''| John | 25 |'' @ [newline] @ ''| Jane | 30 |'',
            cursorLine = 2, cursorCh = 3\<rparr>"
  let ?t = "Some \<lparr>headers = \<lparr>cells = [\<lparr>content = ''Name''\<rparr>, \<lparr>content = ''Age''\<rparr>]\<rparr>,
            separator = [''---'', ''---''],
            rows = [\<lparr>cells = [\<lparr>content = ''John''\<rparr>, \<lparr>content = ''25''\<rparr>]\<rparr>,
                    \<lparr>cells = [\<lparr>content = ''Jane''\<rparr>, \<lparr>content = ''30''\<rparr>]\<rparr>],
            startLine = 0, endLine = 3\<rparr>"
  let ?m1 = "(newTableManager True)\<lparr>sortAscending := True, lastSortedColumn := 0\<rparr>"
  let ?m2 = "(newTableManager True)\<lparr>sortAscending := False, lastSortedColumn := 0\<rparr>"
  have s1: "sortTable (newTableManager True) ?e ?t (Some 0) = (Sorted 0 True, ?m1)"
    by code_simp
  have s2: "sortTable ?m1 ?e ?t (Some 0) = (Sorted 0 False, ?m2)"
    by code_simp
  from sortTable_direction_toggle [OF s1]
  have "lastSortedColumn ?m1 = 0" by blast
  then show ?thesis using s1 s2 by simp
qed

lemma pipePositions_sorted: "sorted_wrt (<) (pipePositions l)"
  unfolding pipePositions_def by (rule sorted_wrt_filter) (simp add: sorted_wrt_upt)

lemma findBetweenPipes_below:
  "sorted_wrt (<) ps \<Longrightarrow> ps \<noteq> [] \<Longrightarrow> ch \<le> int (ps ! 0) \<Longrightarrow> findBetweenPipes ps ch k = - 1"
proof (induction ps ch k rule: findBetweenPipes.induct)
  case (1 startPipe endPipe ps ch i)
  then show ?case by auto
qed auto

lemma findBetweenPipes_above:
  "ps \<noteq> [] \<Longrightarrow> ch > int (last ps) \<Longrightarrow> sorted_wrt (<) ps \<Longrightarrow> findBetweenPipes ps ch k = - 1"
proof (induction ps ch k rule: findBetweenPipes.induct)
  case (1 startPipe endPipe ps ch i)
  have "endPipe \<le> last (endPipe # ps)"
    using "1.prems"(3) by (cases ps) (auto simp: less_imp_le)
  then have "\<not> ch \<le> int endPipe" using "1.prems"(2) by simp
  moreover have "findBetweenPipes (endPipe # ps) ch (Suc i) = - 1"
  proof (rule "1.IH")
    show "\<not> (int startPipe < ch \<and> ch \<le> int endPipe)" using calculation by simp
    show "endPipe # ps \<noteq> []" by simp
    show "int (last (endPipe # ps)) < ch" using "1.prems"(2) by simp
    show "sorted_wrt (<) (endPipe # ps)" using "1.prems"(3) by simp
  qed
  ultimately show ?case by simp
qed auto

lemma findBetweenPipes_between:
  "sorted_wrt (<) ps \<Longrightarrow> i + 1 < length ps \<Longrightarrow> int (ps ! i) < ch \<Longrightarrow> ch \<le> int (ps ! (i + 1)) \<Longrightarrow>
   findBetweenPipes ps ch k = int (k + i)"
proof (induction ps ch k arbitrary: i rule: findBetweenPipes.induct)
  case (1 startPipe endPipe ps ch k)
  show ?case
  proof (cases i)
    case 0
    then show ?thesis using "1.prems" by simp
  next
    case (Suc j)
    have "endPipe \<le> (endPipe # ps) ! j"
      using "1.prems"(1,2) Suc by (cases j) (auto simp: less_imp_le)
    then have "\<not> ch \<le> int endPipe"
      using "1.prems"(3) Suc by simp
    moreover have "findBetweenPipes (endPipe # ps) ch (Suc k) = int (Suc k + j)"
      using "1.IH" [of j] "1.prems" Suc calculation by simp
    ultimately show ?thesis using Suc by simp
  qed
qed auto

lemma pipePositions_Nil: "CHR ''|'' \<notin> set l \<Longrightarrow> pipePositions l = []"
proof -
  assume a: "CHR ''|'' \<notin> set l"
  have "\<And>i. i < length l \<Longrightarrow> l ! i \<noteq> CHR ''|''"
    using a nth_mem by metis
  then show ?thesis by (simp add: pipePositions_def filter_empty_conv)
qed

lemma columnIndexInLine_few: "length (pipePositions l) < 2 \<Longrightarrow> columnIndexInLine l ch = - 1"
  by (simp add: columnIndexInLine_def Let_def)

lemma columnIndexInLine_between:
  assumes "i + 1 < length (pipePositions l)"
    and "int (pipePositions l ! i) < ch" and "ch \<le> int (pipePositions l ! (i + 1))"
  shows "columnIndexInLine l ch = int i"
proof -
  have "pipePositions l \<noteq> []" using assms(1) by auto
  then have "CHR ''|'' \<in> set l" using pipePositions_Nil by blast
  moreover have "findBetweenPipes (pipePositions l) ch 0 = int i"
    using findBetweenPipes_between [OF pipePositions_sorted assms, of 0] by simp
  ultimately show ?thesis using assms(1) by (simp add: columnIndexInLine_def Let_def)
qed

lemma columnIndexInLine_before:
  assumes "2 \<le> length (pipePositions l)" and "ch \<le> int (pipePositions l ! 0)"
  shows "columnIndexInLine l ch = 0"
proof -
  have ne: "pipePositions l \<noteq> []" using assms(1) by auto
  then have "CHR ''|'' \<in> set l" using pipePositions_Nil by blast
  moreover have "findBetweenPipes (pipePositions l) ch 0 = - 1"
    using findBetweenPipes_below [OF pipePositions_sorted ne assms(2)] .
  ultimately show ?thesis using assms by (simp add: columnIndexInLine_def Let_def)
qed

lemma columnIndexInLine_after:
  assumes "2 \<le> length (pipePositions l)"
    and "ch > int (pipePositions l ! (length (pipePositions l) - 1))"
  shows "columnIndexInLine l ch = int (length (pipePositions l)) - 2"
proof -
  have ne: "pipePositions l \<noteq> []" using assms(1) by auto
  then have "CHR ''|'' \<in> set l" using pipePositions_Nil by blast
  moreover have lst: "last (pipePositions l) = pipePositions l ! (length (pipePositions l) - 1)"
    using ne by (rule last_conv_nth)
  moreover have "findBetweenPipes (pipePositions l) ch 0 = - 1"
    using findBetweenPipes_above [OF ne _ pipePositions_sorted] assms(2) lst by simp
  moreover have "pipePositions l ! 0 \<le> pipePositions l ! (length (pipePositions l) - 1)"
    using pipePositions_sorted [of l] assms(1)
    by (cases "length (pipePositions l) - 1 = 0") (auto simp: sorted_wrt_iff_nth_less less_imp_le)
  ultimately show ?thesis using assms by (simp add: columnIndexInLine_def Let_def)
qed

text \<open>
  Claim C6, as the code has it. With \<open>p\<close> the positions of the pipes in the line used (the
  cursor's line when it lies in the table's line range, else the header line), \<open>n\<close> their
  number and the cursor at offset \<open>ch\<close>: with \<open>n < 2\<close> the result is \<open>-1\<close>; otherwise
  the column is \<open>i\<close> when \<open>p[i] < ch \<le> p[i+1]\<close>, \<open>0\<close> when \<open>ch \<le> p[0]\<close> and \<open>n - 2\<close> when
  \<open>ch\<close> is past the last pipe, and the result is that column when it is below the number
  of header cells and \<open>-1\<close> when it is not.
\<close>

theorem getCursorColumnIndex_by_pipes:
  "(length (pipePositions (targetLineOf editor table line)) < 2 \<longrightarrow>
      getCursorColumnIndex (Some editor) table line ch = - 1) \<and>
   (\<forall>i. i + 1 < length (pipePositions (targetLineOf editor table line)) \<and>
        int (pipePositions (targetLineOf editor table line) ! i) < ch \<and>
        ch \<le> int (pipePositions (targetLineOf editor table line) ! (i + 1)) \<longrightarrow>
        getCursorColumnIndex (Some editor) table line ch =
          (if int i < int (length (cells (headers table))) then int i else - 1)) \<and>
   (2 \<le> length (pipePositions (targetLineOf editor table line)) \<and>
    ch \<le> int (pipePositions (targetLineOf editor table line) ! 0) \<longrightarrow>
      getCursorColumnIndex (Some editor) table line ch =
        (if 0 < length (cells (headers table)) then 0 else - 1)) \<and>
   (2 \<le> length (pipePositions (targetLineOf editor table line)) \<and>
    ch > int (pipePositions (targetLineOf editor table line) !
                (length (pipePositions (targetLineOf editor table line)) - 1)) \<longrightarrow>
      getCursorColumnIndex (Some editor) table line ch =
        (if int (length (pipePositions (targetLineOf editor table line))) - 2 <
            int (length (cells (headers table)))
         then int (length (pipePositions (targetLineOf editor table line))) - 2 else - 1))"
proof -
  define l where "l = targetLineOf editor table line"
  have r: "getCursorColumnIndex (Some editor) table line ch =
           (if columnIndexInLine l ch \<ge> 0 \<and>
               columnIndexInLine l ch < int (length (cells (headers table)))
            then columnIndexInLine l ch else - 1)"
    by (simp add: getCursorColumnIndex_def Let_def l_def)
  have a: "length (pipePositions l) < 2 \<longrightarrow> getCursorColumnIndex (Some editor) table line ch = - 1"
    by (simp add: r columnIndexInLine_few)
  have b: "\<forall>i. i + 1 < length (pipePositions l) \<and> int (pipePositions l ! i) < ch \<and>
        ch \<le> int (pipePositions l ! (i + 1)) \<longrightarrow>
        getCursorColumnIndex (Some editor) table line ch =
          (if int i < int (length (cells (headers table))) then int i else - 1)"
  proof (intro allI impI)
    fix i
    assume "i + 1 < length (pipePositions l) \<and> int (pipePositions l ! i) < ch \<and>
        ch \<le> int (pipePositions l ! (i + 1))"
    then have "columnIndexInLine l ch = int i"
      by (intro columnIndexInLine_between) auto
    then show "getCursorColumnIndex (Some editor) table line ch =
          (if int i < int (length (cells (headers table))) then int i else - 1)"
      by (simp add: r)
  qed
  have c: "2 \<le> length (pipePositions l) \<and> ch \<le> int (pipePositions l ! 0) \<longrightarrow>
      getCursorColumnIndex (Some editor) table line ch =
        (if 0 < length (cells (headers table)) then 0 else - 1)"
    by (simp add: r columnIndexInLine_before)
  have d: "2 \<le> length (pipePositions l) \<and>
    ch > int (pipePositions l ! (length (pipePositions l) - 1)) \<longrightarrow>
      getCursorColumnIndex (Some editor) table line ch =
        (if int (length (pipePositions l)) - 2 < int (length (cells (headers table)))
         then int (length (pipePositions l)) - 2 else - 1)"
    by (auto simp: r columnIndexInLine_after)
  show ?thesis using a b c d unfolding l_def by blast
qed

theorem getCursorColumnIndex_by_pipes_witness:
  "pipePositions ''| 1 | 2 |'' = [0, 4, 8] \<and>
   getCursorColumnIndex
     (Some \<lparr>getValue = ''| a | b |'' @ [newline] @ ''| - | - |'' @ [newline] @ ''| 1 | 2 |'',
            cursorLine = 2, cursorCh = 7\<rparr>)
     \<lparr>headers = \<lparr>cells = [\<lparr>content = ''a''\<rparr>, \<lparr>content = ''b''\<rparr>]\<rparr>, separator = [''-'', ''-''],
      rows = [\<lparr>cells = [\<lparr>content = ''1''\<rparr>, \<lparr>content = ''2''\<rparr>]\<rparr>], startLine = 0, endLine = 2\<rparr>
     2 7 = 1"
proof -
  let ?e = "\<lparr>getValue = ''| a | b |'' @ [newline] @ ''| - | - |'' @ [newline] @ ''| 1 | 2 |'',
            cursorLine = 2, cursorCh = 7\<rparr>"
  let ?t = "\<lparr>headers = \<lparr>cells = [\<lparr>content = ''a''\<rparr>, \<lparr>content = ''b''\<rparr>]\<rparr>, separator = [''-'', ''-''],
      rows = [\<lparr>cells = [\<lparr>content = ''1''\<rparr>, \<lparr>content = ''2''\<rparr>]\<rparr>], startLine = 0, endLine = 2\<rparr>"
  have l: "targetLineOf ?e ?t 2 = ''| 1 | 2 |''" by code_simp
  have p: "pipePositions ''| 1 | 2 |'' = [0, 4, 8]" by code_simp
  from getCursorColumnIndex_by_pipes [of ?e ?t 2 7]
  have "\<forall>i. i + 1 < length [0::nat, 4, 8] \<and> int ([0, 4, 8] ! i) < 7 \<and> 7 \<le> int ([0, 4, 8] ! (i + 1)) \<longrightarrow>
        getCursorColumnIndex (Some ?e) ?t 2 7 =
          (if int i < int (length (cells (headers ?t))) then int i else - 1)"
    unfolding l p by blast
  then have "getCursorColumnIndex (Some ?e) ?t 2 7 = 1"
    by (elim allE [of _ 1]) simp
  then show ?thesis using p by simp
qed

theorem getCursorColumnIndex_counterexample:
  "getTableAtCursor (''| a |'' @ [newline] @ ''| - |'' @ [newline] @ ''| 1 | 2 |'') 2 =
     Inr (Some \<lparr>headers = \<lparr>cells = [\<lparr>content = ''a''\<rparr>]\<rparr>, separator = [''-''],
                 rows = [\<lparr>cells = [\<lparr>content = ''1''\<rparr>, \<lparr>content = ''2''\<rparr>]\<rparr>],
                 startLine = 0, endLine = 2\<rparr>) \<and>
   pipePositions ''| 1 | 2 |'' = [0, 4, 8] \<and> (4::int) < 7 \<and> (7::int) \<le> 8 \<and>
   getCursorColumnIndex
     (Some \<lparr>getValue = ''| a |'' @ [newline] @ ''| - |'' @ [newline] @ ''| 1 | 2 |'',
            cursorLine = 2, cursorCh = 7\<rparr>)
     \<lparr>headers = \<lparr>cells = [\<lparr>content = ''a''\<rparr>]\<rparr>, separator = [''-''],
      rows = [\<lparr>cells = [\<lparr>content = ''1''\<rparr>, \<lparr>content = ''2''\<rparr>]\<rparr>], startLine = 0, endLine = 2\<rparr>
     2 7 = - 1"
  by code_simp

section \<open>Facts about the validators\<close>

lemma forEachIndexed_warn_only:
  assumes "\<And>i x r. isValid (body i x r) = isValid r \<and> errors (body i x r) = errors r"
  shows "isValid (forEachIndexed body k xs r) = isValid r \<and>
         errors (forEachIndexed body k xs r) = errors r"
  using assms by (induction xs arbitrary: k r) auto

lemma forEachIndexed_errors:
  assumes "\<And>i x r. body i x r = (if ok x then r else pushError (msg i x) r)"
  shows "(isValid (forEachIndexed body k xs r) = (isValid r \<and> list_all ok xs)) \<and>
         (errors (forEachIndexed body k xs r) = [] \<longleftrightarrow> errors r = [] \<and> list_all ok xs)"
proof (induction xs arbitrary: k r)
  case Nil
  show ?case by simp
next
  case (Cons x xs)
  show ?case
    using Cons [of "Suc k" "body k x r"] by (auto simp: assms pushError_def)
qed

lemma validateTable_isValid:
  "isValid (validateTable table) \<longleftrightarrow>
     cells (headers table) \<noteq> [] \<and> length (separator table) = length (cells (headers table)) \<and>
     list_all matchesSeparatorToken (separator table)"
  unfolding validateTable_def Let_def
  apply (subst forEachIndexed_errors [where ok = matchesSeparatorToken
           and msg = "\<lambda>index sep. ''Invalid separator format in column '' @ showNat (index + 1) @ '': '' @ sep", THEN conjunct1])
   apply simp
  apply (subst forEachIndexed_warn_only [THEN conjunct1], simp add: pushWarning_def)
  apply (subst forEachIndexed_warn_only [THEN conjunct1], simp add: pushWarning_def)
  apply (auto simp: pushError_def)
  done

lemma validateTable_errors:
  "errors (validateTable table) = [] \<longleftrightarrow> isValid (validateTable table)"
  unfolding validateTable_isValid
  unfolding validateTable_def Let_def
  apply (subst forEachIndexed_errors [where ok = matchesSeparatorToken
           and msg = "\<lambda>index sep. ''Invalid separator format in column '' @ showNat (index + 1) @ '': '' @ sep", THEN conjunct2])
   apply simp
  apply (subst forEachIndexed_warn_only [THEN conjunct2], simp add: pushWarning_def)
  apply (subst forEachIndexed_warn_only [THEN conjunct2], simp add: pushWarning_def)
  apply (auto simp: pushError_def)
  done

lemma checkHeader_fst:
  "fst (checkHeader k h (S, r)) = S @ [toLowerCase (trim h)]"
  by (simp add: checkHeader_def Let_def)

lemma checkHeader_warnings_mono:
  "set (warnings r) \<subseteq> set (warnings (snd (checkHeader k h (S, r))))"
  by (auto simp: checkHeader_def Let_def pushWarning_def)

lemma checkHeader_valid:
  "isValid (snd (checkHeader k h (S, r))) = isValid r \<and>
   errors (snd (checkHeader k h (S, r))) = errors r"
  by (simp add: checkHeader_def Let_def pushWarning_def)

lemma checkHeader_duplicate:
  "toLowerCase (trim h) \<in> set S \<Longrightarrow>
   ''Duplicate header found: '' @ [CHR 0x22] @ h @ [CHR 0x22]
     \<in> set (warnings (snd (checkHeader k h (S, r))))"
  by (auto simp: checkHeader_def Let_def pushWarning_def)

lemma headers_loop_warnings_mono:
  "set (warnings r) \<subseteq> set (warnings (snd (forEachIndexed checkHeader k hs (S, r))))"
proof (induction hs arbitrary: k S r)
  case Nil
  show ?case by simp
next
  case (Cons h hs)
  obtain S' r' where st: "checkHeader k h (S, r) = (S', r')" by (cases "checkHeader k h (S, r)")
  have "set (warnings r) \<subseteq> set (warnings r')"
    using checkHeader_warnings_mono [of r k h S] st by simp
  then show ?case using Cons [of r' "Suc k" S'] st by auto
qed

lemma headers_loop_valid:
  "isValid (snd (forEachIndexed checkHeader k hs (S, r))) = isValid r \<and>
   errors (snd (forEachIndexed checkHeader k hs (S, r))) = errors r"
proof (induction hs arbitrary: k S r)
  case Nil
  show ?case by simp
next
  case (Cons h hs)
  obtain S' r' where st: "checkHeader k h (S, r) = (S', r')" by (cases "checkHeader k h (S, r)")
  then show ?case using Cons [of "Suc k" S' r'] checkHeader_valid [of k h S r] by simp
qed

lemma headers_loop_duplicate:
  "j < length hs \<Longrightarrow>
   toLowerCase (trim (hs ! j)) \<in> set S \<union> (\<lambda>h. toLowerCase (trim h)) ` set (take j hs) \<Longrightarrow>
   ''Duplicate header found: '' @ [CHR 0x22] @ hs ! j @ [CHR 0x22]
     \<in> set (warnings (snd (forEachIndexed checkHeader k hs (S, r))))"
proof (induction hs arbitrary: j k S r)
  case Nil
  then show ?case by simp
next
  case (Cons h hs)
  obtain S' r' where st: "checkHeader k h (S, r) = (S', r')" by (cases "checkHeader k h (S, r)")
  have S': "S' = S @ [toLowerCase (trim h)]"
    using checkHeader_fst [of k h S r] st by simp
  show ?case
  proof (cases j)
    case 0
    then have "toLowerCase (trim h) \<in> set S" using Cons.prems by simp
    then have "''Duplicate header found: '' @ [CHR 0x22] @ h @ [CHR 0x22] \<in> set (warnings r')"
      using checkHeader_duplicate [of h S k r] st by simp
    then show ?thesis
      using headers_loop_warnings_mono [of r' "Suc k" hs S'] st 0 by auto
  next
    case (Suc i)
    then have "i < length hs" using Cons.prems by simp
    moreover have "toLowerCase (trim (hs ! i)) \<in> set S' \<union> (\<lambda>h. toLowerCase (trim h)) ` set (take i hs)"
      using Cons.prems Suc S' by auto
    ultimately show ?thesis
      using Cons.IH [of i S' "Suc k" r'] st Suc by simp
  qed
qed

lemma rows_loop_warn:
  assumes "\<And>i x r. set (warnings r) \<subseteq> set (warnings (body i x r))"
  shows "set (warnings r) \<subseteq> set (warnings (forEachIndexed body k xs r))"
proof (induction xs arbitrary: k r)
  case Nil
  show ?case by simp
next
  case (Cons x xs)
  show ?case using assms [of r k x] Cons [of "body k x r" "Suc k"] by auto
qed

lemma validateTableData_warnings_from_headers:
  "set (warnings (snd (forEachIndexed checkHeader 0 hs ([], r)))) \<subseteq>
   set (warnings (validateTableData hs tableRows))" if "r = (if length hs = 0
                    then pushError ''Table must have at least one header''
                           \<lparr>isValid = True, errors = [], warnings = []\<rparr>
                    else \<lparr>isValid = True, errors = [], warnings = []\<rparr>)"
proof (cases tableRows)
  case None
  then show ?thesis unfolding that by (auto simp: validateTableData_def Let_def pushWarning_def)
next
  case (Some rs)
  show ?thesis unfolding that validateTableData_def Let_def Some option.case
    by (rule rows_loop_warn) (auto simp: pushWarning_def)
qed

lemma validateTableData_isValid:
  "(isValid (validateTableData hs tableRows) \<longleftrightarrow> hs \<noteq> []) \<and>
   (errors (validateTableData hs tableRows) = [] \<longleftrightarrow> hs \<noteq> [])"
proof (cases tableRows)
  case None
  then show ?thesis
    by (simp add: validateTableData_def Let_def pushWarning_def headers_loop_valid pushError_def)
next
  case (Some rs)
  show ?thesis unfolding validateTableData_def Let_def Some option.case
    apply (subst forEachIndexed_warn_only [THEN conjunct1], simp add: pushWarning_def)
    apply (subst forEachIndexed_warn_only [THEN conjunct2], simp add: pushWarning_def)
    apply (simp add: headers_loop_valid pushError_def)
    done
qed

text \<open>
  The duplicate check of \<open>validateTableData\<close>, and validity in both validators. When two
  headers are equal after trimming and lower-casing, the warnings of \<open>validateTableData\<close>
  name the later one as a duplicate. In both validators warnings leave \<open>isValid\<close> alone:
  it is true exactly when no error was recorded, which for \<open>validateTable\<close> means that
  there is a header cell, the separator has as many tokens as the header has cells, and
  every token matches \<^verbatim>\<open>^:?-+:?$\<close>.
\<close>

theorem validator_duplicate_warning:
  "(\<forall>i j. i < j \<and> j < length hs \<and>
          toLowerCase (trim (hs ! i)) = toLowerCase (trim (hs ! j)) \<longrightarrow>
          ''Duplicate header found: '' @ [CHR 0x22] @ hs ! j @ [CHR 0x22]
            \<in> set (warnings (validateTableData hs tableRows))) \<and>
   (isValid (validateTableData hs tableRows) \<longleftrightarrow> errors (validateTableData hs tableRows) = []) \<and>
   (isValid (validateTableData hs tableRows) \<longleftrightarrow> hs \<noteq> []) \<and>
   (isValid (validateTable table) \<longleftrightarrow> errors (validateTable table) = []) \<and>
   (isValid (validateTable table) \<longleftrightarrow>
      cells (headers table) \<noteq> [] \<and> length (separator table) = length (cells (headers table)) \<and>
      list_all matchesSeparatorToken (separator table))"
proof (intro conjI allI impI)
  fix i j
  assume a: "i < j \<and> j < length hs \<and> toLowerCase (trim (hs ! i)) = toLowerCase (trim (hs ! j))"
  define r where "r = (if length hs = 0
                    then pushError ''Table must have at least one header''
                           \<lparr>isValid = True, errors = [], warnings = []\<rparr>
                    else \<lparr>isValid = True, errors = [], warnings = []\<rparr>)"
  have "take j hs ! i = hs ! i" "i < length (take j hs)"
    using a by simp_all
  then have "hs ! i \<in> set (take j hs)"
    using nth_mem [of i "take j hs"] by simp
  then have "toLowerCase (trim (hs ! i)) \<in> (\<lambda>h. toLowerCase (trim h)) ` set (take j hs)"
    by (rule imageI)
  then have "toLowerCase (trim (hs ! j)) \<in> set [] \<union> (\<lambda>h. toLowerCase (trim h)) ` set (take j hs)"
    using a by simp
  then have "''Duplicate header found: '' @ [CHR 0x22] @ hs ! j @ [CHR 0x22]
     \<in> set (warnings (snd (forEachIndexed checkHeader 0 hs ([], r))))"
    using a by (intro headers_loop_duplicate) auto
  then show "''Duplicate header found: '' @ [CHR 0x22] @ hs ! j @ [CHR 0x22]
            \<in> set (warnings (validateTableData hs tableRows))"
    using validateTableData_warnings_from_headers [OF r_def] by blast
next
  show "isValid (validateTableData hs tableRows) \<longleftrightarrow> errors (validateTableData hs tableRows) = []"
    using validateTableData_isValid by simp
  show "isValid (validateTableData hs tableRows) \<longleftrightarrow> hs \<noteq> []"
    using validateTableData_isValid by simp
  show "isValid (validateTable table) \<longleftrightarrow> errors (validateTable table) = []"
    using validateTable_errors by simp
  show "isValid (validateTable table) \<longleftrightarrow>
      cells (headers table) \<noteq> [] \<and> length (separator table) = length (cells (headers table)) \<and>
      list_all matchesSeparatorToken (separator table)"
    by (rule validateTable_isValid)
qed

theorem validator_duplicate_warning_witness:
  "toLowerCase (trim ''Name'') = toLowerCase (trim '' name'') \<and>
   ''Duplicate header found: '' @ [CHR 0x22] @ '' name'' @ [CHR 0x22]
     \<in> set (warnings (validateTableData [''Name'', '' name''] (Some [])))"
proof -
  have k: "toLowerCase (trim ''Name'') = toLowerCase (trim '' name'')" by code_simp
  have "\<forall>i j. i < j \<and> j < length [''Name'', '' name''] \<and>
          toLowerCase (trim ([''Name'', '' name''] ! i)) = toLowerCase (trim ([''Name'', '' name''] ! j)) \<longrightarrow>
          ''Duplicate header found: '' @ [CHR 0x22] @ [''Name'', '' name''] ! j @ [CHR 0x22]
            \<in> set (warnings (validateTableData [''Name'', '' name''] (Some [])))"
    using validator_duplicate_warning [of "[''Name'', '' name'']" "Some []"] by (rule conjunct1)
  from this [rule_format, of 0 1] k show ?thesis by simp
qed

lemma forEachIndexed_warnings_within:
  assumes "\<And>i x r. set (warnings (body i x r)) \<subseteq> set (warnings r) \<union> W"
  shows "set (warnings (forEachIndexed body k xs r)) \<subseteq> set (warnings r) \<union> W"
proof (induction xs arbitrary: k r)
  case Nil
  show ?case by simp
next
  case (Cons x xs)
  have "set (warnings (forEachIndexed body (Suc k) xs (body k x r))) \<subseteq>
        set (warnings (body k x r)) \<union> W"
    by (rule Cons)
  then show ?case using assms [of k x r] by auto
qed

text \<open>Every warning of \<open>validateTable\<close> is about a row or about an empty header: none is
  about a duplicate.\<close>

lemma validateTable_warnings:
  "set (warnings (validateTable table)) \<subseteq> {w. take 4 w = ''Row '' \<or> take 7 w = ''Header ''}"
proof -
  let ?W = "{w. take 4 w = ''Row '' \<or> take 7 w = ''Header ''}"
  define r0 where "r0 = \<lparr>isValid = True, errors = [], warnings = []\<rparr>"
  define r1 where "r1 = (if length (cells (headers table)) = 0
                    then pushError ''Table must have headers'' r0 else r0)"
  define r2 where "r2 = (if length (separator table) \<noteq> length (cells (headers table))
                    then pushError ''Separator row must match number of headers'' r1 else r1)"
  define b3 where "b3 = (\<lambda>(index::nat) (row::TableRow) (r::ValidationResult).
                     if length (cells row) \<noteq> length (cells (headers table))
                     then pushWarning (''Row '' @ showNat (index + 1) @ '' has '' @
                            showNat (length (cells row)) @ '' columns, expected '' @
                            showNat (length (cells (headers table)))) r
                     else r)"
  define b4 where "b4 = (\<lambda>(index::nat) (cell::TableCell) (r::ValidationResult).
                     if trim (content cell) = []
                     then pushWarning (''Header '' @ showNat (index + 1) @ '' is empty'') r
                     else r)"
  define b5 where "b5 = (\<lambda>(index::nat) (sep::string) (r::ValidationResult).
                     if \<not> matchesSeparatorToken sep
                     then pushError (''Invalid separator format in column '' @
                            showNat (index + 1) @ '': '' @ sep) r
                     else r)"
  have v: "validateTable table =
           forEachIndexed b5 0 (separator table)
             (forEachIndexed b4 0 (cells (headers table))
                (forEachIndexed b3 0 (rows table) r2))"
    by (simp add: validateTable_def Let_def r0_def r1_def r2_def b3_def b4_def b5_def)
  have w2: "warnings r2 = []"
    by (simp add: r2_def r1_def r0_def pushError_def)
  have s3: "set (warnings (forEachIndexed b3 0 (rows table) r2)) \<subseteq> set (warnings r2) \<union> ?W"
    by (rule forEachIndexed_warnings_within) (auto simp: b3_def pushWarning_def)
  have s4: "set (warnings (forEachIndexed b4 0 (cells (headers table))
                (forEachIndexed b3 0 (rows table) r2))) \<subseteq>
            set (warnings (forEachIndexed b3 0 (rows table) r2)) \<union> ?W"
    by (rule forEachIndexed_warnings_within) (auto simp: b4_def pushWarning_def)
  have s5: "set (warnings (validateTable table)) \<subseteq>
            set (warnings (forEachIndexed b4 0 (cells (headers table))
                (forEachIndexed b3 0 (rows table) r2))) \<union> ?W"
    unfolding v
    by (rule forEachIndexed_warnings_within) (auto simp: b5_def pushError_def)
  show ?thesis using s3 s4 s5 w2 by auto
qed

lemma validateTable_no_duplicate_warning:
  "''Duplicate header found: '' @ rest \<notin> set (warnings (validateTable table))"
proof
  assume "''Duplicate header found: '' @ rest \<in> set (warnings (validateTable table))"
  then have "take 4 (''Duplicate header found: '' @ rest) = ''Row '' \<or>
             take 7 (''Duplicate header found: '' @ rest) = ''Header ''"
    using validateTable_warnings by blast
  then show False by simp
qed

text \<open>
  Claim C8. The half of the claim about \<open>isValid\<close> holds. The half about the warning
  fails: on a table with the headers \<^verbatim>\<open>Name\<close> and \<^verbatim>\<open>name\<close>, equal after trimming
  and lower-casing, \<open>validateTable\<close> finds the table valid and gives no warning at all
  (it never gives a duplicate warning, on any table), while \<open>validateTableData\<close> on the
  same headers gives the duplicate warning.
\<close>

theorem validateTable_misses_duplicate:
  "toLowerCase (trim ''Name'') = toLowerCase (trim ''name'') \<and>
   validateTable \<lparr>headers = \<lparr>cells = [\<lparr>content = ''Name''\<rparr>, \<lparr>content = ''name''\<rparr>]\<rparr>,
                  separator = [''---'', ''---''],
                  rows = [\<lparr>cells = [\<lparr>content = ''1''\<rparr>, \<lparr>content = ''2''\<rparr>]\<rparr>],
                  startLine = 0, endLine = 2\<rparr> =
     \<lparr>isValid = True, errors = [], warnings = []\<rparr> \<and>
   warnings (validateTableData [''Name'', ''name''] (Some [[''1'', ''2'']])) =
     [''Duplicate header found: '' @ [CHR 0x22] @ ''name'' @ [CHR 0x22]]"
  by code_simp

section \<open>Facts about splitting, joining and trimming\<close>

lemma split_no_sep: "d \<notin> set s \<Longrightarrow> split d s = [s]"
  by (induction s) auto

lemma split_append_sep:
  "d \<notin> set x \<Longrightarrow> split d (x @ d # rest) = x # split d rest"
  by (induction x) auto

lemma join_Cons: "ys \<noteq> [] \<Longrightarrow> join sep (x # ys) = x @ sep @ join sep ys"
  by (cases ys) auto

lemma split_join:
  "xs \<noteq> [] \<Longrightarrow> \<forall>x \<in> set xs. d \<notin> set x \<Longrightarrow> split d (join [d] xs) = xs"
proof (induction xs)
  case Nil
  then show ?case by simp
next
  case (Cons x xs)
  show ?case
  proof (cases "xs = []")
    case True
    then show ?thesis using Cons.prems by (simp add: split_no_sep)
  next
    case False
    then have "join [d] (x # xs) = x @ d # join [d] xs" by (simp add: join_Cons)
    then show ?thesis using Cons False by (simp add: split_append_sep)
  qed
qed

lemma set_join: "set (join sep xs) \<subseteq> set sep \<union> \<Union> (set ` set xs)"
  by (induction sep xs rule: join.induct) auto

lemma trim_drop_leading: "isWhiteSpace c \<Longrightarrow> trim (c # s) = trim s"
  by (simp add: trim_def)

lemma trim_drop_trailing: "isWhiteSpace c \<Longrightarrow> trim (s @ [c]) = trim s"
proof -
  assume c: "isWhiteSpace c"
  show ?thesis
  proof (cases "\<forall>x \<in> set s. isWhiteSpace x")
    case True
    then have d1: "dropWhile isWhiteSpace s = []" by simp
    have d2: "dropWhile isWhiteSpace (s @ [c]) = []" using True c by simp
    show ?thesis unfolding trim_def d1 d2 by simp
  next
    case False
    then obtain x where "x \<in> set s" "\<not> isWhiteSpace x" by blast
    then have d: "dropWhile isWhiteSpace (s @ [c]) = dropWhile isWhiteSpace s @ [c]"
      by (rule dropWhile_append1)
    show ?thesis unfolding trim_def d using c by simp
  qed
qed

lemma trim_padded: "trim (CHR '' '' # s @ '' '') = trim s"
  using trim_drop_trailing [of "CHR '' ''" "CHR '' '' # s"] trim_drop_leading [of "CHR '' ''" s]
  by (simp add: isWhiteSpace_def)

lemma trim_Nil: "trim [] = []"
  by (simp add: trim_def)

lemma trim_bounded:
  "\<not> isWhiteSpace a \<Longrightarrow> \<not> isWhiteSpace b \<Longrightarrow> trim (a # s @ [b]) = a # s @ [b]"
  by (simp add: trim_def)

lemma rowLine_unfold:
  "rowLine fs = CHR ''|'' # (CHR '' '' # join '' | '' fs @ '' '') @ [CHR ''|'']"
  by (simp add: rowLine_def)

lemma trim_rowLine: "trim (rowLine fs) = rowLine fs"
  unfolding rowLine_unfold by (rule trim_bounded) (simp_all add: isWhiteSpace_def)

lemma slice_rowLine: "slice_1_m1 (rowLine fs) = CHR '' '' # join '' | '' fs @ '' ''"
  by (simp add: rowLine_def slice_1_m1_def butlast_append)

lemma isTableLine_rowLine: "isTableLine (rowLine fs)"
  unfolding isTableLine_def trim_rowLine
  by (simp add: rowLine_def startsWith_def endsWith_def)

lemma split_padded_join:
  "fs \<noteq> [] \<Longrightarrow> \<forall>f \<in> set fs. CHR ''|'' \<notin> set f \<Longrightarrow>
   split CHR ''|'' (CHR '' '' # join '' | '' fs @ '' '') = map (\<lambda>f. CHR '' '' # f @ '' '') fs"
proof (induction fs)
  case Nil
  then show ?case by simp
next
  case (Cons f fs)
  show ?case
  proof (cases "fs = []")
    case True
    then show ?thesis using Cons.prems by (simp add: split_no_sep)
  next
    case False
    have e: "CHR '' '' # join '' | '' (f # fs) @ '' '' =
          (CHR '' '' # f @ '' '') @ CHR ''|'' # (CHR '' '' # join '' | '' fs @ '' '')"
      using False by (simp add: join_Cons)
    have n: "CHR ''|'' \<notin> set (CHR '' '' # f @ '' '')"
      using Cons.prems by simp
    have "split CHR ''|'' (CHR '' '' # join '' | '' (f # fs) @ '' '') =
          (CHR '' '' # f @ '' '') # split CHR ''|'' (CHR '' '' # join '' | '' fs @ '' '')"
      unfolding e by (rule split_append_sep [OF n])
    also have "split CHR ''|'' (CHR '' '' # join '' | '' fs @ '' '') =
               map (\<lambda>f. CHR '' '' # f @ '' '') fs"
      using Cons False by simp
    finally show ?thesis by simp
  qed
qed

lemma split_padded_empty: "split CHR ''|'' (CHR '' '' # join '' | '' [] @ '' '') = [''  '']"
  by simp

lemma trim_two_spaces: "trim ''  '' = []"
  by (simp add: trim_def isWhiteSpace_def)

text \<open>What the row parser makes of a generated line.\<close>

lemma map_trim_split_rowLine:
  assumes "\<forall>f \<in> set fs. CHR ''|'' \<notin> set f \<and> trim f = f"
  shows "map trim (split CHR ''|'' (slice_1_m1 (trim (rowLine fs)))) =
         (if fs = [] then [[]] else fs)"
proof (cases "fs = []")
  case True
  then show ?thesis
    unfolding trim_rowLine slice_rowLine by (simp add: trim_two_spaces)
next
  case False
  have mt: "map trim (map (\<lambda>f. CHR '' '' # f @ '' '') fs) = fs"
    using assms by (simp add: trim_padded map_idI)
  have sp: "split CHR ''|'' (CHR '' '' # join '' | '' fs @ '' '') =
            map (\<lambda>f. CHR '' '' # f @ '' '') fs"
    using False assms by (intro split_padded_join) auto
  show ?thesis
    unfolding trim_rowLine slice_rowLine sp mt using False by (simp only: if_False)
qed

lemma parseTableRow_rowLine:
  assumes "wellFormedRow row"
  shows "parseTableRow (rowLine (map content (cells row))) =
         \<lparr>cells = (if cells row = [] then [\<lparr>content = []\<rparr>] else cells row)\<rparr>"
proof -
  have "\<forall>f \<in> set (map content (cells row)). CHR ''|'' \<notin> set f \<and> trim f = f"
    using assms by (auto simp: wellFormedRow_def wellFormedCell_def list_all_iff)
  from map_trim_split_rowLine [OF this]
  have "map (\<lambda>cell. \<lparr>content = cell\<rparr>)
          (map trim (split CHR ''|'' (slice_1_m1 (trim (rowLine (map content (cells row))))))) =
        map (\<lambda>cell. \<lparr>content = cell\<rparr>)
          (if cells row = [] then [[]] else map content (cells row))"
    by simp
  then show ?thesis
    by (simp add: parseTableRow_def Let_def comp_def map_idI)
qed

lemma rowLine_normalised:
  "rowLine (map content (if cs = [] then [\<lparr>content = []\<rparr>] else cs)) = rowLine (map content cs)"
  by (simp add: rowLine_def)

lemma token_chars:
  "wellFormedToken tok \<Longrightarrow> c \<in> set tok \<Longrightarrow> isWhiteSpace c \<or> c = CHR ''-'' \<or> c = CHR '':''"
  by (simp add: wellFormedToken_def list_all_iff)

lemma token_no_pipe:
  assumes "wellFormedToken tok"
  shows "CHR ''|'' \<notin> set tok \<and> trim tok = tok \<and> newline \<notin> set tok"
proof -
  have "\<not> (isWhiteSpace CHR ''|'' \<or> CHR ''|'' = CHR ''-'' \<or> CHR ''|'' = CHR '':'')"
    by (simp add: isWhiteSpace_def)
  then have "CHR ''|'' \<notin> set tok"
    using token_chars [OF assms, of "CHR ''|''"] by blast
  then show ?thesis using assms by (simp add: wellFormedToken_def)
qed

lemma parseSeparator_rowLine:
  assumes "list_all wellFormedToken sep"
  shows "parseSeparator (rowLine sep) = (if sep = [] then [[]] else sep)"
proof -
  have "\<forall>f \<in> set sep. CHR ''|'' \<notin> set f \<and> trim f = f"
    using assms token_no_pipe by (auto simp: list_all_iff)
  from map_trim_split_rowLine [OF this] show ?thesis
    by (simp add: parseSeparator_def Let_def)
qed

lemma rowLine_sep_normalised: "rowLine (if sep = [] then [[]] else sep) = rowLine sep"
  by (simp add: rowLine_def)

lemma set_rowLine:
  "set (rowLine fs) \<subseteq> {CHR ''|'', CHR '' ''} \<union> \<Union> (set ` set fs)"
  using set_join [of "'' | ''" fs] by (auto simp: rowLine_def)

lemma isSeparatorLine_rowLine:
  assumes "list_all wellFormedToken sep"
  shows "isSeparatorLine (rowLine sep)"
proof -
  have "\<forall>c \<in> set (rowLine sep). isSeparatorChar c"
  proof
    fix c assume "c \<in> set (rowLine sep)"
    then have "c \<in> {CHR ''|'', CHR '' ''} \<union> \<Union> (set ` set sep)"
      using set_rowLine by blast
    then consider "c = CHR ''|''" | "c = CHR '' ''" | tok where "tok \<in> set sep" "c \<in> set tok"
      by auto
    then show "isSeparatorChar c"
    proof cases
      case 1
      then show ?thesis by (simp add: isSeparatorChar_def)
    next
      case 2
      then show ?thesis by (simp add: isSeparatorChar_def isWhiteSpace_def)
    next
      case 3
      then have "wellFormedToken tok" using assms by (simp add: list_all_iff)
      from token_chars [OF this 3(2)] show ?thesis
        unfolding isSeparatorChar_def by blast
    qed
  qed
  then have "list_all isSeparatorChar (rowLine sep)" by (simp add: list_all_iff)
  moreover have "startsWith (rowLine sep) CHR ''|'' \<and> endsWith (rowLine sep) CHR ''|'' \<and> rowLine sep \<noteq> []"
    by (simp add: rowLine_def startsWith_def endsWith_def)
  ultimately show ?thesis
    by (simp add: isSeparatorLine_def Let_def trim_rowLine)
qed

lemma newline_not_in_rowLine:
  "\<forall>f \<in> set fs. newline \<notin> set f \<Longrightarrow> newline \<notin> set (rowLine fs)"
  using set_rowLine [of fs] by (auto simp: newline_def)

lemma dropWhile_none: "\<forall>c \<in> set s. \<not> P c \<Longrightarrow> dropWhile P s = s"
  by (cases s) auto

lemma trim_no_white_space: "\<forall>c \<in> set s. \<not> isWhiteSpace c \<Longrightarrow> trim s = s"
  by (simp add: trim_def dropWhile_none)

lemma startsWith_Cons: "startsWith tok c \<Longrightarrow> \<exists>r. tok = c # r"
  by (cases tok) (simp_all add: startsWith_def)

lemma dashes_then_colon:
  assumes "dropWhile (\<lambda>c. c = CHR ''-'') a = [] \<or> dropWhile (\<lambda>c. c = CHR ''-'') a = '':''"
  shows "set a \<subseteq> {CHR ''-'', CHR '':''}"
proof -
  have "set a = set (takeWhile (\<lambda>c. c = CHR ''-'') a @ dropWhile (\<lambda>c. c = CHR ''-'') a)"
    by simp
  then have "set a = set (takeWhile (\<lambda>c. c = CHR ''-'') a) \<union> set (dropWhile (\<lambda>c. c = CHR ''-'') a)"
    by (simp only: set_append)
  moreover have "set (takeWhile (\<lambda>c. c = CHR ''-'') a) \<subseteq> {CHR ''-''}"
    by (auto dest: set_takeWhileD)
  moreover have "set (dropWhile (\<lambda>c. c = CHR ''-'') a) \<subseteq> {CHR '':''}"
  proof (rule disjE [OF assms])
    assume e: "dropWhile (\<lambda>c. c = CHR ''-'') a = []"
    show ?thesis unfolding e by simp
  next
    assume e: "dropWhile (\<lambda>c. c = CHR ''-'') a = '':''"
    show ?thesis unfolding e by simp
  qed
  ultimately show ?thesis by blast
qed


lemma after_optional_colon:
  assumes "set (if startsWith tok CHR '':'' then tl tok else tok) \<subseteq> {CHR ''-'', CHR '':''}"
  shows "set tok \<subseteq> {CHR ''-'', CHR '':''}"
proof (cases "startsWith tok CHR '':''")
  case True
  then obtain r where r: "tok = CHR '':'' # r" using startsWith_Cons by blast
  then have "set r \<subseteq> {CHR ''-'', CHR '':''}" using assms True by simp
  then show ?thesis unfolding r by simp
next
  case False
  then show ?thesis using assms by simp
qed

text \<open>A separator token that passes the validator's test is well formed.\<close>

lemma matchesSeparatorToken_wellFormed:
  assumes "matchesSeparatorToken tok"
  shows "wellFormedToken tok"
proof -
  have "dropWhile (\<lambda>c. c = CHR ''-'') (if startsWith tok CHR '':'' then tl tok else tok) = [] \<or>
        dropWhile (\<lambda>c. c = CHR ''-'') (if startsWith tok CHR '':'' then tl tok else tok) = '':''"
    using assms unfolding matchesSeparatorToken_def Let_def by blast
  then have "set (if startsWith tok CHR '':'' then tl tok else tok) \<subseteq> {CHR ''-'', CHR '':''}"
    by (rule dashes_then_colon)
  then have "set tok \<subseteq> {CHR ''-'', CHR '':''}"
    by (rule after_optional_colon)
  then have chars: "\<And>c. c \<in> set tok \<Longrightarrow> c = CHR ''-'' \<or> c = CHR '':''" by blast
  have nws: "\<forall>c \<in> set tok. \<not> isWhiteSpace c"
  proof
    fix c assume "c \<in> set tok"
    then have "c = CHR ''-'' \<or> c = CHR '':''" by (rule chars)
    then show "\<not> isWhiteSpace c" by (auto simp: isWhiteSpace_def)
  qed
  have nl: "newline \<notin> set tok"
  proof
    assume "newline \<in> set tok"
    then have "newline = CHR ''-'' \<or> newline = CHR '':''" by (rule chars)
    then show False by (simp add: newline_def)
  qed
  have tr: "trim tok = tok" using nws by (rule trim_no_white_space)
  have "list_all (\<lambda>c. isWhiteSpace c \<or> c = CHR ''-'' \<or> c = CHR '':'') tok"
    using chars by (simp add: list_all_iff)
  then show ?thesis
    using tr nl by (simp add: wellFormedToken_def)
qed

lemma parseRows_all_table_lines:
  "i \<le> length lines \<Longrightarrow> \<forall>k. i \<le> k \<and> k < length lines \<longrightarrow> isTableLine (lines ! k) \<Longrightarrow>
   parseRows lines i acc = (acc @ map parseTableRow (drop i lines), length lines)"
proof (induction lines i acc rule: parseRows.induct)
  case (1 lines i acc)
  show ?case
  proof (cases "i < length lines")
    case True
    then have tl: "isTableLine (lines ! i)" using "1.prems" by simp
    have "parseRows lines i acc = parseRows lines (Suc i) (acc @ [parseTableRow (lines ! i)])"
      using True tl by (rule parseRows_step)
    also have "\<dots> = ((acc @ [parseTableRow (lines ! i)]) @ map parseTableRow (drop (Suc i) lines),
                    length lines)"
      using "1.IH" True tl "1.prems" by simp
    also have "drop i lines = lines ! i # drop (Suc i) lines"
      using True by (simp add: Cons_nth_drop_Suc)
    then have "(acc @ [parseTableRow (lines ! i)]) @ map parseTableRow (drop (Suc i) lines) =
               acc @ map parseTableRow (drop i lines)"
      by simp
    finally show ?thesis .
  next
    case False
    then have "parseRows lines i acc = (acc, i)" by (simp add: parseRows_stop)
    then show ?thesis using False "1.prems" by simp
  qed
qed

text \<open>The lines of a generated table, and what the parser reads from them.\<close>

lemma generateTable_lines:
  assumes "wellFormedTable t"
  shows "split newline (generateTable t) =
           rowLine (map content (cells (headers t))) # rowLine (separator t) #
           map (\<lambda>row. rowLine (map content (cells row))) (rows t)"
proof -
  have h: "newline \<notin> set (rowLine (map content (cells (headers t))))"
    using assms
    by (intro newline_not_in_rowLine)
       (auto simp: wellFormedTable_def wellFormedRow_def wellFormedCell_def list_all_iff)
  have s: "newline \<notin> set (rowLine (separator t))"
    using assms token_no_pipe
    by (intro newline_not_in_rowLine) (auto simp: wellFormedTable_def list_all_iff)
  have r: "\<forall>row \<in> set (rows t). newline \<notin> set (rowLine (map content (cells row)))"
  proof
    fix row assume "row \<in> set (rows t)"
    then have "wellFormedRow row" using assms by (simp add: wellFormedTable_def list_all_iff)
    then show "newline \<notin> set (rowLine (map content (cells row)))"
      by (intro newline_not_in_rowLine)
         (auto simp: wellFormedRow_def wellFormedCell_def list_all_iff)
  qed
  show ?thesis
    unfolding generateTable_def
    by (rule split_join [THEN trans]) (use h s r in auto)
qed

lemma parseTable_generateTable:
  assumes wf: "wellFormedTable t"
  shows "parseTable (generateTable t) 0 =
           Inr (Some \<lparr>headers = \<lparr>cells = (if cells (headers t) = [] then [\<lparr>content = []\<rparr>]
                                            else cells (headers t))\<rparr>,
                       separator = (if separator t = [] then [[]] else separator t),
                       rows = map (\<lambda>row. \<lparr>cells = (if cells row = [] then [\<lparr>content = []\<rparr>]
                                                    else cells row)\<rparr>) (rows t),
                       startLine = 0, endLine = int (length (rows t)) + 1\<rparr>)"
proof -
  define H where "H = rowLine (map content (cells (headers t)))"
  define S where "S = rowLine (separator t)"
  define Rs where "Rs = map (\<lambda>row. rowLine (map content (cells row))) (rows t)"
  have lines: "split newline (generateTable t) = H # S # Rs"
    using generateTable_lines [OF wf] by (simp add: H_def S_def Rs_def)
  have start: "findTableStart (H # S # Rs) 0 = 0"
    by (rule findTableStart_stop) (simp add: H_def isTableLine_rowLine)
  have sepline: "isSeparatorLine S"
    unfolding S_def using wf by (intro isSeparatorLine_rowLine) (simp add: wellFormedTable_def)
  have "\<forall>k. 2 \<le> k \<and> k < length (H # S # Rs) \<longrightarrow> isTableLine ((H # S # Rs) ! k)"
  proof (intro allI impI)
    fix k assume k: "2 \<le> k \<and> k < length (H # S # Rs)"
    then obtain j where j: "k = Suc (Suc j)" "j < length Rs"
      by (cases k; cases "k - 1") auto
    then show "isTableLine ((H # S # Rs) ! k)"
      by (simp add: Rs_def isTableLine_rowLine)
  qed
  then have "parseRows (H # S # Rs) 2 [] = ([] @ map parseTableRow (drop 2 (H # S # Rs)), length (H # S # Rs))"
    by (intro parseRows_all_table_lines) auto
  then have pr: "parseRows (H # S # Rs) (Suc (Suc 0)) [] = (map parseTableRow Rs, Suc (Suc (length Rs)))"
    by (simp add: numeral_2_eq_2)
  have hdr: "parseTableRow H = \<lparr>cells = (if cells (headers t) = [] then [\<lparr>content = []\<rparr>]
                                            else cells (headers t))\<rparr>"
    unfolding H_def using wf by (intro parseTableRow_rowLine) (simp add: wellFormedTable_def)
  have sep: "parseSeparator S = (if separator t = [] then [[]] else separator t)"
    unfolding S_def using wf by (intro parseSeparator_rowLine) (simp add: wellFormedTable_def)
  have rws: "map parseTableRow Rs =
             map (\<lambda>row. \<lparr>cells = (if cells row = [] then [\<lparr>content = []\<rparr>] else cells row)\<rparr>) (rows t)"
    unfolding Rs_def using wf
    by (simp add: wellFormedTable_def list_all_iff parseTableRow_rowLine)
  show ?thesis
    unfolding parseTable_def lines Let_def
    using start sepline pr hdr sep rws by (simp add: Rs_def)
qed

text \<open>
  Claim C1. For every well-formed table (cells trimmed and free of pipes and line
  breaks, separator tokens trimmed and made of hyphens, colons and inner white space),
  parsing its generated text from line 0 succeeds, and generating from the parsed table
  gives the same text again.
\<close>

theorem generateTable_roundtrip:
  assumes "wellFormedTable t"
  shows "\<exists>t'. parseTable (generateTable t) 0 = Inr (Some t') \<and>
              generateTable t' = generateTable t"
proof -
  let ?t' = "\<lparr>headers = \<lparr>cells = (if cells (headers t) = [] then [\<lparr>content = []\<rparr>]
                                            else cells (headers t))\<rparr>,
                       separator = (if separator t = [] then [[]] else separator t),
                       rows = map (\<lambda>row. \<lparr>cells = (if cells row = [] then [\<lparr>content = []\<rparr>]
                                                    else cells row)\<rparr>) (rows t),
                       startLine = 0, endLine = int (length (rows t)) + 1\<rparr>"
  have "generateTable ?t' = generateTable t"
    unfolding generateTable_def
    by (simp add: rowLine_normalised rowLine_sep_normalised comp_def)
  then show ?thesis using parseTable_generateTable [OF assms] by blast
qed

theorem generateTable_roundtrip_witness:
  "wellFormedTable
     \<lparr>headers = \<lparr>cells = [\<lparr>content = ''Name''\<rparr>, \<lparr>content = ''Age''\<rparr>]\<rparr>,
      separator = [''---'', '':-:''],
      rows = [\<lparr>cells = [\<lparr>content = ''John Doe''\<rparr>, \<lparr>content = ''25''\<rparr>]\<rparr>, \<lparr>cells = []\<rparr>],
      startLine = 5, endLine = 8\<rparr> \<and>
   (\<exists>t'. parseTable
           (generateTable
              \<lparr>headers = \<lparr>cells = [\<lparr>content = ''Name''\<rparr>, \<lparr>content = ''Age''\<rparr>]\<rparr>,
               separator = [''---'', '':-:''],
               rows = [\<lparr>cells = [\<lparr>content = ''John Doe''\<rparr>, \<lparr>content = ''25''\<rparr>]\<rparr>, \<lparr>cells = []\<rparr>],
               startLine = 5, endLine = 8\<rparr>) 0 = Inr (Some t') \<and>
         generateTable t' =
           ''| Name | Age |'' @ [newline] @ ''| --- | :-: |'' @ [newline] @
           ''| John Doe | 25 |'' @ [newline] @ ''|  |'')"
proof -
  let ?t = "\<lparr>headers = \<lparr>cells = [\<lparr>content = ''Name''\<rparr>, \<lparr>content = ''Age''\<rparr>]\<rparr>,
      separator = [''---'', '':-:''],
      rows = [\<lparr>cells = [\<lparr>content = ''John Doe''\<rparr>, \<lparr>content = ''25''\<rparr>]\<rparr>, \<lparr>cells = []\<rparr>],
      startLine = 5, endLine = 8\<rparr>"
  have wf: "wellFormedTable ?t" by code_simp
  have g: "generateTable ?t = ''| Name | Age |'' @ [newline] @ ''| --- | :-: |'' @ [newline] @
           ''| John Doe | 25 |'' @ [newline] @ ''|  |''"
    by code_simp
  show ?thesis using generateTable_roundtrip [OF wf] wf unfolding g by simp
qed

section \<open>Facts about cell colour\<close>

text \<open>
  Claim C7. Colouring a cell whose content holds a tag, here \<^verbatim>\<open>a<br>b\<close>, twice with
  \<^verbatim>\<open>#ff0000\<close>: the first call wraps the content; the second does not find the wrapper
  of the first, because the wrapper pattern only accepts an inner text without
  \<^verbatim>\<open><\<close>, and wraps once more. On the plain content \<^verbatim>\<open>ab\<close> the second call
  changes nothing.
\<close>

theorem applyCellColor_twice_nests:
  "content (applyCellColor \<lparr>content = ''a<br>b''\<rparr> ''#ff0000'') =
     ''<div class='' @ [CHR 0x22] @ ''cell-bg-ff0000'' @ [CHR 0x22] @ ''>a<br>b</div>'' \<and>
   content (applyCellColor (applyCellColor \<lparr>content = ''a<br>b''\<rparr> ''#ff0000'') ''#ff0000'') =
     ''<div class='' @ [CHR 0x22] @ ''cell-bg-ff0000'' @ [CHR 0x22] @ ''>'' @
     ''<div class='' @ [CHR 0x22] @ ''cell-bg-ff0000'' @ [CHR 0x22] @ ''>a<br>b</div></div>'' \<and>
   content (applyCellColor (applyCellColor \<lparr>content = ''ab''\<rparr> ''#ff0000'') ''#ff0000'') =
     content (applyCellColor \<lparr>content = ''ab''\<rparr> ''#ff0000'')"
  by code_simp

section \<open>Facts about the CSV import\<close>

lemma parseCSVChars_not_Nil: "parseCSVChars s acc cur q \<noteq> []"
  by (induction s acc cur q rule: parseCSVChars.induct) (auto split: list.splits)

lemma parseCSVLine_not_Nil: "parseCSVLine line \<noteq> []"
  by (simp add: parseCSVLine_def parseCSVChars_not_Nil)

lemma cells_rowLine_length:
  assumes "fs \<noteq> []" and "\<forall>f \<in> set fs. CHR ''|'' \<notin> set f"
  shows "length (cells (parseTableRow (rowLine fs))) = length fs"
proof -
  have "split CHR ''|'' (slice_1_m1 (trim (rowLine fs))) = map (\<lambda>f. CHR '' '' # f @ '' '') fs"
    unfolding trim_rowLine slice_rowLine using assms by (rule split_padded_join)
  then show ?thesis by (simp add: parseTableRow_def Let_def)
qed

text \<open>
  What the CSV import writes. For every accepted CSV text (at least two lines once
  trimmed) the table inserted has one line for the header row, the separator line, and
  one line for each further CSV line, each made of exactly the fields parsed from that
  CSV line. A line whose fields hold no pipe has as many cells as its CSV line has
  fields.
\<close>

theorem convertCSVToTable_keeps_fields:
  assumes accepted: "2 \<le> length (split newline (trim csvContent))"
  shows "\<exists>hdrs dataRows.
           map parseCSVLine (split newline (trim csvContent)) = hdrs # dataRows \<and>
           convertCSVToTable (Some editor) csvContent =
             Inserted
               (join [newline]
                  (rowLine hdrs # rowLine (map (\<lambda>_. ''---'') hdrs) # map rowLine dataRows)
                @ [newline])
               (cursorLine editor) (cursorCh editor)
               (''CSV imported: '' @ showNat (length hdrs) @ '' columns, '' @
                showNat (length dataRows) @ '' rows'') \<and>
           list_all (\<lambda>row. row \<noteq> [] \<and>
                       (list_all (\<lambda>f. CHR ''|'' \<notin> set f) row \<longrightarrow>
                          length (cells (parseTableRow (rowLine row))) = length row))
                    (hdrs # dataRows)"
proof -
  obtain l ls where lines: "split newline (trim csvContent) = l # ls"
    using accepted by (cases "split newline (trim csvContent)") auto
  let ?hdrs = "parseCSVLine l" and ?rows = "map parseCSVLine ls"
  have a: "map parseCSVLine (split newline (trim csvContent)) = ?hdrs # ?rows"
    by (simp add: lines)
  have b: "convertCSVToTable (Some editor) csvContent =
             Inserted
               (join [newline]
                  (rowLine ?hdrs # rowLine (map (\<lambda>_. ''---'') ?hdrs) # map rowLine ?rows)
                @ [newline])
               (cursorLine editor) (cursorCh editor)
               (''CSV imported: '' @ showNat (length ?hdrs) @ '' columns, '' @
                showNat (length ?rows) @ '' rows'')"
  proof -
    have "\<not> length (l # ls) < 2" using accepted unfolding lines by linarith
    then show ?thesis
      unfolding convertCSVToTable_def Let_def lines createMarkdownTableFromData_def
      by (simp del: length_Cons)
  qed
  have c: "list_all (\<lambda>row. row \<noteq> [] \<and>
                       (list_all (\<lambda>f. CHR ''|'' \<notin> set f) row \<longrightarrow>
                          length (cells (parseTableRow (rowLine row))) = length row))
                    (?hdrs # ?rows)"
    unfolding list_all_iff
  proof (intro ballI conjI impI)
    fix row assume "row \<in> set (?hdrs # ?rows)"
    then obtain line where "row = parseCSVLine line" by auto
    then show ne: "row \<noteq> []" by (simp add: parseCSVLine_not_Nil)
    assume "\<forall>f \<in> set row. CHR ''|'' \<notin> set f"
    with ne show "length (cells (parseTableRow (rowLine row))) = length row"
      by (rule cells_rowLine_length)
  qed
  show ?thesis
    by (rule exI [of _ ?hdrs], rule exI [of _ ?rows]) (intro conjI a b c)
qed

theorem convertCSVToTable_keeps_fields_witness:
  "2 \<le> length (split newline (trim (''a,b'' @ [newline] @ ''1'' @ [newline] @ ''x,y,z''))) \<and>
   (\<exists>hdrs dataRows.
      map parseCSVLine (split newline (trim (''a,b'' @ [newline] @ ''1'' @ [newline] @ ''x,y,z''))) =
        hdrs # dataRows \<and>
      convertCSVToTable (Some \<lparr>getValue = [], cursorLine = 0, cursorCh = 0\<rparr>)
        (''a,b'' @ [newline] @ ''1'' @ [newline] @ ''x,y,z'') =
        Inserted
          (join [newline]
             (rowLine hdrs # rowLine (map (\<lambda>_. ''---'') hdrs) # map rowLine dataRows) @ [newline])
          0 0
          (''CSV imported: '' @ showNat (length hdrs) @ '' columns, '' @
           showNat (length dataRows) @ '' rows''))"
proof -
  have a: "2 \<le> length (split newline (trim (''a,b'' @ [newline] @ ''1'' @ [newline] @ ''x,y,z'')))"
    by code_simp
  from convertCSVToTable_keeps_fields [OF a, of "\<lparr>getValue = [], cursorLine = 0, cursorCh = 0\<rparr>"]
  show ?thesis using a by auto
qed

text \<open>
  Claim C9. Importing the three CSV lines \<^verbatim>\<open>a,b\<close>, \<^verbatim>\<open>1\<close> and \<^verbatim>\<open>x,y,z\<close> inserts
  a table whose header line has two cells, whose first data line has one and whose second
  has three, where the claim has two in each: \<open>createMarkdownTableFromData\<close> joins the
  fields of a row as they are. The generator for headers and rows, on the same data,
  fills the short row and cuts the long one.
\<close>

theorem convertCSVToTable_rows_not_normalised:
  "convertCSVToTable (Some \<lparr>getValue = [], cursorLine = 0, cursorCh = 0\<rparr>)
     (''a,b'' @ [newline] @ ''1'' @ [newline] @ ''x,y,z'') =
     Inserted (''| a | b |'' @ [newline] @ ''| --- | --- |'' @ [newline] @ ''| 1 |'' @ [newline] @
               ''| x | y | z |'' @ [newline])
       0 0 ''CSV imported: 2 columns, 2 rows'' \<and>
   length (cells (parseTableRow ''| a | b |'')) = 2 \<and>
   length (cells (parseTableRow ''| 1 |'')) = 1 \<and>
   length (cells (parseTableRow ''| x | y | z |'')) = 3 \<and>
   generateTableLegacy [''a'', ''b''] [[''1''], [''x'', ''y'', ''z'']] None =
     ''| a | b |'' @ [newline] @ ''| --- | --- |'' @ [newline] @ ''| 1 |  |'' @ [newline] @
     ''| x | y |''"
  by code_simp

end
